theory Spec2Isabelle
  imports Main
begin

section \<open>Strings and paths of the Python runtime\<close>

text \<open>
  Python strings are modelled as \<open>string\<close> (a list of 8-bit characters), Python's
  unbounded integers as \<open>int\<close>. Paths follow \<open>posixpath\<close>: the separator is
  \<open>/\<close>.
\<close>

definition digit_chars :: string where
  "digit_chars = ''0123456789''"

text \<open>\<open>str(n)\<close> for a non-negative integer: its decimal digits.\<close>

function str_nat :: "nat \<Rightarrow> string" where
  "str_nat n = (if n < 10 then [digit_chars ! n]
                else str_nat (n div 10) @ [digit_chars ! (n mod 10)])"
  by pat_completeness auto
termination
  by (relation "measure (\<lambda>n. n)") auto

declare str_nat.simps [simp del]

text \<open>\<open>str(n)\<close> for any integer.\<close>

definition str_int :: "int \<Rightarrow> string" where
  "str_int n = (if n < 0 then CHR ''-'' # str_nat (nat (- n)) else str_nat (nat n))"

text \<open>
  \<open>str.isspace\<close> on the 8-bit characters: tab, line feed, vertical tab, form feed,
  carriage return, the four separators 0x1C..0x1F and the space.
\<close>

definition is_space :: "char \<Rightarrow> bool" where
  "is_space c = (c \<in> {CHR 0x09, CHR 0x0A, CHR 0x0B, CHR 0x0C, CHR 0x0D,
                       CHR 0x1C, CHR 0x1D, CHR 0x1E, CHR 0x1F, CHR 0x20})"

text \<open>\<open>s.strip()\<close>: whitespace removed at both ends.\<close>

definition strip :: "string \<Rightarrow> string" where
  "strip s = rev (dropWhile is_space (rev (dropWhile is_space s)))"

text \<open>\<open>s.split('\n')\<close>: the pieces between line feeds; never the empty list.\<close>

fun split_nl :: "string \<Rightarrow> string list" where
  "split_nl [] = [[]]"
| "split_nl (c # cs) =
     (if c = CHR 0x0A then [] # split_nl cs
      else (case split_nl cs of
              [] \<Rightarrow> [[c]]
            | l # ls \<Rightarrow> (c # l) # ls))"

text \<open>
  \<open>p.rfind(c)\<close>: the index of the last occurrence, \<open>-1\<close> when there is none.
\<close>

fun rfind_from :: "char \<Rightarrow> int \<Rightarrow> int \<Rightarrow> string \<Rightarrow> int" where
  "rfind_from c i found [] = found"
| "rfind_from c i found (x # xs) = rfind_from c (i + 1) (if x = c then i else found) xs"

definition rfind :: "string \<Rightarrow> char \<Rightarrow> int" where
  "rfind p c = rfind_from c 0 (- 1) p"

text \<open>
  \<open>os.path.splitext(p)\<close> (\<open>genericpath._splitext\<close> with separator \<open>/\<close> and
  extension separator \<open>.\<close>): the extension starts at the last dot, provided that dot
  comes after the last separator and some character between the two is not a dot;
  otherwise the extension is empty.
\<close>

definition splitext :: "string \<Rightarrow> string \<times> string" where
  "splitext p =
     (let sepIndex = rfind p CHR ''/'';
          dotIndex = rfind p CHR ''.''
      in if dotIndex > sepIndex
            \<and> dropWhile (\<lambda>c. c = CHR ''.'')
                  (take (nat (dotIndex - (sepIndex + 1))) (drop (nat (sepIndex + 1)) p)) \<noteq> []
         then (take (nat dotIndex) p, drop (nat dotIndex) p)
         else (p, []))"

text \<open>
  \<open>os.path.dirname(p)\<close>: everything up to the last separator, with trailing separators
  removed unless the head consists of separators only.
\<close>

definition dirname :: "string \<Rightarrow> string" where
  "dirname p =
     (let i = nat (rfind p CHR ''/'' + 1);
          head = take i p
      in if head \<noteq> [] \<and> head \<noteq> replicate (length head) CHR ''/''
         then rev (dropWhile (\<lambda>c. c = CHR ''/'') (rev head))
         else head)"

text \<open>\<open>os.path.join(a, b)\<close>.\<close>

definition path_join :: "string \<Rightarrow> string \<Rightarrow> string" where
  "path_join a b =
     (if b \<noteq> [] \<and> hd b = CHR ''/'' then b
      else if a = [] \<or> last a = CHR ''/'' then a @ b
      else a @ ''/'' @ b)"

definition os_sep :: string where
  "os_sep = ''/''"

text \<open>
  \<open>int(s)\<close> on a string: surrounding whitespace is ignored, then an optional sign, then
  decimal digits in which single underscores may separate digits. Anything else raises
  \<open>ValueError\<close> (the value \<open>None\<close> here).
\<close>

definition is_digit :: "char \<Rightarrow> bool" where
  "is_digit c = (c \<in> set digit_chars)"

fun int_body :: "string \<Rightarrow> bool" where
  "int_body [] = False"
| "int_body [c] = is_digit c"
| "int_body (c # d # cs) =
     (is_digit c \<and> (if d = CHR ''_'' then int_body cs else int_body (d # cs)))"

definition digit_value :: "char \<Rightarrow> nat" where
  "digit_value c = length (takeWhile (\<lambda>d. d \<noteq> c) digit_chars)"

definition digits_value :: "string \<Rightarrow> nat" where
  "digits_value s = foldl (\<lambda>acc c. 10 * acc + digit_value c) 0 (filter is_digit s)"

definition py_int :: "string \<Rightarrow> int option" where
  "py_int s =
     (let t = strip s;
          neg = (t \<noteq> [] \<and> hd t = CHR ''-'');
          body = (if t \<noteq> [] \<and> (hd t = CHR ''-'' \<or> hd t = CHR ''+'') then tl t else t)
      in if int_body body
         then Some (if neg then - int (digits_value body) else int (digits_value body))
         else None)"

section \<open>The world outside the script\<close>

text \<open>
  The script talks to a text-generation service, to web servers and to the file system,
  and prints to the console. The services are oracles of the environment: what they
  answer may depend on the request and on everything that happened before (the number
  of things already done). The world records, in order, the requests made with their
  answers and the files written; the console output; and the files and directories.
\<close>

datatype gen_outcome =
    GenText "string option"  \<comment> \<open>a response; its \<open>text\<close> may be \<open>None\<close>\<close>
  | ServerError string       \<comment> \<open>\<open>genai.errors.ServerError\<close> with its message\<close>
  | ClientError string       \<comment> \<open>any other error of the service\<close>

datatype get_outcome =
    Response int string      \<comment> \<open>status code and body\<close>
  | RequestException string  \<comment> \<open>malformed URL, connection error, timeout, ...\<close>
  | ValueError string

record request =
  req_url :: string
  req_user_agent :: "string option"
  req_timeout :: "nat option"

datatype event =
    GenerateContent string string gen_outcome  \<comment> \<open>model, contents, answer\<close>
  | HttpGet request get_outcome
  | WriteFile string string   \<comment> \<open>\<open>open(path, "wb")\<close> and \<open>write\<close>: path, bytes\<close>
  | ImWrite string string     \<comment> \<open>\<open>cv2.imwrite\<close> wrote a file: path, bytes\<close>

datatype imwrite_outcome =
    Encoded string   \<comment> \<open>the bytes written\<close>
  | NotWritten       \<comment> \<open>\<open>cv2.imwrite\<close> returned \<open>False\<close>\<close>
  | CvError string   \<comment> \<open>\<open>cv2.error\<close>, as for an extension without encoder\<close>

record 'img env =
  genai :: "nat \<Rightarrow> string \<Rightarrow> string \<Rightarrow> gen_outcome"
  http :: "nat \<Rightarrow> request \<Rightarrow> get_outcome"
  imdecode :: "string \<Rightarrow> 'img option"
  cvtColor_BGR2GRAY :: "'img \<Rightarrow> 'img"
  imencode :: "string \<Rightarrow> 'img \<Rightarrow> imwrite_outcome"
  base_dir :: string

record world =
  trace :: "event list"
  stdout :: "string list"
  files :: "string \<rightharpoonup> string"
  dirs :: "string set"

datatype exn =
    ClientErrorE string
  | AttributeError
  | RequestExceptionE string
  | ValueErrorE string
  | IndexError
  | FileNotFoundError
  | FileExistsError
  | IsADirectoryError
  | CvErrorE string

text \<open>
  How a call ends: it returns a value, it ends the process through \<open>sys.exit\<close>, or an
  exception that nothing catches leaves it.
\<close>

datatype 'a outcome = Returned 'a | Exited int | Raised exn

definition print :: "string \<Rightarrow> world \<Rightarrow> world" where
  "print s w = w\<lparr>stdout := stdout w @ [s]\<rparr>"

definition GENAI_MODEL :: string where
  "GENAI_MODEL = ''gemini-2.5-flash-lite''"

definition IMAGES_DIR :: "'img env \<Rightarrow> string" where
  "IMAGES_DIR env = path_join (path_join (base_dir env) ''..'') ''images''"

definition GSIMAGES_DIR :: "'img env \<Rightarrow> string" where
  "GSIMAGES_DIR env = path_join (path_join (base_dir env) ''..'') ''gs-images''"

text \<open>\<open>client.models.generate_content(model=GENAI_MODEL, contents=...)\<close>.\<close>

definition generate_content :: "'img env \<Rightarrow> string \<Rightarrow> world \<Rightarrow> gen_outcome \<times> world" where
  "generate_content env contents w =
     (let r = genai env (length (trace w)) GENAI_MODEL contents
      in (r, w\<lparr>trace := trace w @ [GenerateContent GENAI_MODEL contents r]\<rparr>))"

text \<open>\<open>requests.get(url, ...)\<close>.\<close>

definition requests_get :: "'img env \<Rightarrow> request \<Rightarrow> world \<Rightarrow> get_outcome \<times> world" where
  "requests_get env req w =
     (let r = http env (length (trace w)) req
      in (r, w\<lparr>trace := trace w @ [HttpGet req r]\<rparr>))"

text \<open>
  \<open>os.makedirs(d, exist_ok=True)\<close>: the empty path and a path that is a regular file
  raise. \<open>open(filename, "wb")\<close> followed by \<open>write\<close>: a directory cannot be opened.
\<close>

definition makedirs :: "string \<Rightarrow> world \<Rightarrow> unit outcome \<times> world" where
  "makedirs d w =
     (if d = [] then (Raised FileNotFoundError, w)
      else if d \<in> dom (files w) then (Raised FileExistsError, w)
      else (Returned (), w\<lparr>dirs := insert d (dirs w)\<rparr>))"

definition write_file :: "string \<Rightarrow> string \<Rightarrow> world \<Rightarrow> unit outcome \<times> world" where
  "write_file filename content w =
     (if filename \<in> dirs w then (Raised IsADirectoryError, w)
      else (Returned (), w\<lparr>files := (files w)(filename \<mapsto> content),
                          trace := trace w @ [WriteFile filename content]\<rparr>))"

text \<open>\<open>cv2.imread(path)\<close>: \<open>None\<close> for a missing file and for bytes that do not decode.\<close>

definition imread :: "'img env \<Rightarrow> string \<Rightarrow> world \<Rightarrow> 'img option" where
  "imread env path w = (case files w path of None \<Rightarrow> None | Some bytes \<Rightarrow> imdecode env bytes)"

section \<open>The script\<close>

text \<open>
  The functions of \<open>imageprocessing.py\<close>, in the order of the file. The model starts
  once the module is loaded: the key file has been read and the client of the
  text-generation service exists. \<open>requests\<close> documents every exception it raises as a
  \<open>RequestException\<close>; together with \<open>ValueError\<close> these are the ways in which a GET
  fails here.
\<close>

subsection \<open>URL acquisition\<close>

text \<open>
  \<open>is_accessible(url)\<close>: a GET with a timeout of 5 seconds; the answer is whether the
  status is 200. \<open>RequestException\<close> and \<open>ValueError\<close> are caught, printed and
  answered with \<open>False\<close>.
\<close>

definition is_accessible :: "'img env \<Rightarrow> string \<Rightarrow> world \<Rightarrow> bool \<times> world" where
  "is_accessible env url w =
     (case requests_get env \<lparr>req_url = url, req_user_agent = None, req_timeout = Some 5\<rparr> w of
        (Response status_code content, w1) \<Rightarrow> (status_code = 200, w1)
      | (RequestException e, w1) \<Rightarrow> (False, print (''Error accessing '' @ url @ '': '' @ e) w1)
      | (ValueError e, w1) \<Rightarrow> (False, print (''Error accessing '' @ url @ '': '' @ e) w1))"

definition generation_prompt :: "int \<Rightarrow> string" where
  "generation_prompt numimages =
     ''Generate '' @ str_int numimages @
     '' public domain image URL (either JPEG or PNG format) from '' @
     ''trusted public domain image repositories, except any Wikimedia-related ones.'' @
     ''The URL must directly point to a valid image file ending with .jpg or .png '' @
     ''and the file size must be less than 200 KB. Provide the final image URLs in '' @
     ''plain text.''"

text \<open>The response text is formatted into the prompt; \<open>None\<close> formats as \<open>None\<close>.\<close>

definition extraction_prompt :: "string option \<Rightarrow> string" where
  "extraction_prompt text =
     ''Extract all URLs from the following contents into a plain text list. '' @
     ''Each URL must be on a new line. These are the contents: '' @
     (case text of None \<Rightarrow> ''None'' | Some t \<Rightarrow> t)"

text \<open>
  The inner loop \<open>for url in urls\<close>: each candidate is stripped and tested; an accessible
  one is appended; the loop breaks as soon as the list has \<open>numimages\<close> elements.
\<close>

fun for_urls :: "'img env \<Rightarrow> int \<Rightarrow> string list \<Rightarrow> string list \<Rightarrow> world \<Rightarrow> string list \<times> world" where
  "for_urls env numimages [] image_urls w = (image_urls, w)"
| "for_urls env numimages (u # urls) image_urls w =
     (let url = strip u
      in case is_accessible env url w of
           (ok, w1) \<Rightarrow>
             (let image_urls1 = (if ok then image_urls @ [url] else image_urls)
              in if int (length image_urls1) = numimages then (image_urls1, w1)
                 else for_urls env numimages urls image_urls1 w1))"

text \<open>
  The outer loop \<open>while len(image_urls) < numimages\<close> may run forever; the first argument
  bounds the number of its iterations, and \<open>None\<close> says that the bound was reached.
  A \<open>ServerError\<close> of either request is caught: its message is printed and the process
  exits with status 1. Another error of the service is not caught, and the \<open>strip\<close> of
  a missing text raises \<open>AttributeError\<close>.
\<close>

fun while_loop :: "nat \<Rightarrow> 'img env \<Rightarrow> int \<Rightarrow> string list \<Rightarrow> world
    \<Rightarrow> (string list outcome \<times> world) option" where
  "while_loop fuel env numimages image_urls w =
     (if int (length image_urls) < numimages then
        (case fuel of
           0 \<Rightarrow> None
         | Suc fuel' \<Rightarrow>
            (case generate_content env (generation_prompt numimages) w of
               (ServerError m, w1) \<Rightarrow> Some (Exited 1, print (''Error: '' @ m) w1)
             | (ClientError m, w1) \<Rightarrow> Some (Raised (ClientErrorE m), w1)
             | (GenText generation_text, w1) \<Rightarrow>
                 (case generate_content env (extraction_prompt generation_text) w1 of
                    (ServerError m, w2) \<Rightarrow> Some (Exited 1, print (''Error: '' @ m) w2)
                  | (ClientError m, w2) \<Rightarrow> Some (Raised (ClientErrorE m), w2)
                  | (GenText None, w2) \<Rightarrow> Some (Raised AttributeError, w2)
                  | (GenText (Some extraction_text), w2) \<Rightarrow>
                      (case for_urls env numimages (split_nl (strip extraction_text))
                              image_urls w2 of
                         (image_urls1, w3) \<Rightarrow> while_loop fuel' env numimages image_urls1 w3))))
      else Some (Returned image_urls, w))"

declare while_loop.simps [simp del]

definition generate_image_urls :: "nat \<Rightarrow> 'img env \<Rightarrow> int \<Rightarrow> world
    \<Rightarrow> (string list outcome \<times> world) option" where
  "generate_image_urls fuel env numimages w = while_loop fuel env numimages [] w"

subsection \<open>Fetch and conversion\<close>

definition useragent :: string where
  "useragent = ''Mozilla/5.0 (Macintosh; Intel Mac OS X 10_15_7) '' @
               ''AppleWebKit/537.36 (KHTML, like Gecko) Chrome/140.0.0.0 Safari/537.36''"

text \<open>
  \<open>download_image(url, filename)\<close>: the GET is not guarded, so its exceptions leave the
  function. Status 200: the directory is made and the body written. Any other status:
  a message is printed and the process exits with status 1.
\<close>

definition download_image :: "'img env \<Rightarrow> string \<Rightarrow> string \<Rightarrow> world \<Rightarrow> unit outcome \<times> world" where
  "download_image env url filename w =
     (case requests_get env
             \<lparr>req_url = url, req_user_agent = Some useragent, req_timeout = None\<rparr> w of
        (RequestException e, w1) \<Rightarrow> (Raised (RequestExceptionE e), w1)
      | (ValueError e, w1) \<Rightarrow> (Raised (ValueErrorE e), w1)
      | (Response status_code content, w1) \<Rightarrow>
          (if status_code = 200 then
             (case makedirs (dirname filename) w1 of
                (Returned u, w2) \<Rightarrow> write_file filename content w2
              | (Exited c, w2) \<Rightarrow> (Exited c, w2)
              | (Raised e, w2) \<Rightarrow> (Raised e, w2))
           else (Exited 1, print (''Error while downloading image from '' @ url) w1)))"

text \<open>
  \<open>to_grayscale(input_image, output_image)\<close>: an image that does not read is reported
  and skipped; otherwise it is converted, the directory is made and the result written.
  The value of \<open>cv2.imwrite\<close> is ignored.
\<close>

definition to_grayscale :: "'img env \<Rightarrow> string \<Rightarrow> string \<Rightarrow> world \<Rightarrow> unit outcome \<times> world" where
  "to_grayscale env input_image output_image w =
     (case imread env input_image w of
        None \<Rightarrow> (Returned (), print (''Error: could not read '' @ input_image) w)
      | Some img \<Rightarrow>
          (let grayscale = cvtColor_BGR2GRAY env img
           in case makedirs (dirname output_image) w of
                (Returned u, w1) \<Rightarrow>
                  (case imencode env output_image grayscale of
                     Encoded bytes \<Rightarrow>
                       (Returned (), w1\<lparr>files := (files w1)(output_image \<mapsto> bytes),
                                          trace := trace w1 @ [ImWrite output_image bytes]\<rparr>)
                   | NotWritten \<Rightarrow> (Returned (), w1)
                   | CvError m \<Rightarrow> (Raised (CvErrorE m), w1))
              | (Exited c, w1) \<Rightarrow> (Exited c, w1)
              | (Raised e, w1) \<Rightarrow> (Raised e, w1)))"

subsection \<open>The driver\<close>

text \<open>
  The names of the two files of image \<open>i\<close>: the directory, the separator, \<open>str(i+1)\<close>
  and the second component of \<open>os.path.splitext\<close> of the URL.
\<close>

definition imagefile :: "string \<Rightarrow> string list \<Rightarrow> nat \<Rightarrow> string" where
  "imagefile images_dir image_urls i =
     images_dir @ os_sep @ str_int (int i + 1) @ snd (splitext (image_urls ! i))"

definition grayfile :: "string \<Rightarrow> string list \<Rightarrow> nat \<Rightarrow> string" where
  "grayfile gsimages_dir image_urls i =
     gsimages_dir @ os_sep @ str_int (int i + 1) @ snd (splitext (image_urls ! i))"

text \<open>\<open>for i in range(len(image_urls))\<close>: download, then convert.\<close>

function main_loop :: "'img env \<Rightarrow> string \<Rightarrow> string \<Rightarrow> string list \<Rightarrow> nat \<Rightarrow> world
    \<Rightarrow> unit outcome \<times> world" where
  "main_loop env images_dir gsimages_dir image_urls i w =
     (if i < length image_urls then
        (case download_image env (image_urls ! i) (imagefile images_dir image_urls i) w of
           (Returned u, w1) \<Rightarrow>
             (case to_grayscale env (imagefile images_dir image_urls i)
                     (grayfile gsimages_dir image_urls i) w1 of
                (Returned u', w2) \<Rightarrow> main_loop env images_dir gsimages_dir image_urls (i + 1) w2
              | (Exited c, w2) \<Rightarrow> (Exited c, w2)
              | (Raised e, w2) \<Rightarrow> (Raised e, w2))
         | (Exited c, w1) \<Rightarrow> (Exited c, w1)
         | (Raised e, w1) \<Rightarrow> (Raised e, w1))
      else (Returned (), w))"
  by pat_completeness auto
termination
  by (relation "measure (\<lambda>(env, images_dir, gsimages_dir, image_urls, i, w). length image_urls - i)")
     auto

declare main_loop.simps [simp del]

text \<open>
  The script of \<open>src/\<close>: the count is \<open>int(sys.argv[1])\<close>; a missing argument raises
  \<open>IndexError\<close>, one that is no integer raises \<open>ValueError\<close>.
\<close>

definition main :: "nat \<Rightarrow> 'img env \<Rightarrow> string list \<Rightarrow> world \<Rightarrow> (unit outcome \<times> world) option" where
  "main fuel env argv w =
     (if length argv \<le> 1 then Some (Raised IndexError, w)
      else case py_int (argv ! 1) of
             None \<Rightarrow> Some (Raised (ValueErrorE (argv ! 1)), w)
           | Some numimages \<Rightarrow>
               (case generate_image_urls fuel env numimages w of
                  None \<Rightarrow> None
                | Some (Returned image_urls, w1) \<Rightarrow>
                    Some (main_loop env (IMAGES_DIR env) (GSIMAGES_DIR env) image_urls 0 w1)
                | Some (Exited c, w1) \<Rightarrow> Some (Exited c, w1)
                | Some (Raised e, w1) \<Rightarrow> Some (Raised e, w1)))"

text \<open>
  The script at the top of the repository: the same functions, the directories
  \<open>../images\<close> and \<open>../gs-images\<close>, and the count written into the call.
\<close>

definition main_toplevel :: "nat \<Rightarrow> 'img env \<Rightarrow> string list \<Rightarrow> world
    \<Rightarrow> (unit outcome \<times> world) option" where
  "main_toplevel fuel env argv w =
     (case generate_image_urls fuel env 1 w of
        None \<Rightarrow> None
      | Some (Returned image_urls, w1) \<Rightarrow>
          Some (main_loop env ''../images'' ''../gs-images'' image_urls 0 w1)
      | Some (Exited c, w1) \<Rightarrow> Some (Exited c, w1)
      | Some (Raised e, w1) \<Rightarrow> Some (Raised e, w1))"

section \<open>Reading a run off the world\<close>

text \<open>
  The URL of a GET that was answered with status 200, and the message of a request to
  the text-generation service that was answered with a \<open>ServerError\<close>.
\<close>

definition ok_url :: "event \<Rightarrow> string list" where
  "ok_url e = (case e of
                 HttpGet r (Response status_code content) \<Rightarrow>
                   (if status_code = 200 then [req_url r] else [])
               | _ \<Rightarrow> [])"

definition gets_200 :: "event list \<Rightarrow> string list" where
  "gets_200 tr = concat (map ok_url tr)"

definition server_error_msg :: "event \<Rightarrow> string list" where
  "server_error_msg e = (case e of GenerateContent m c (ServerError msg) \<Rightarrow> [msg] | _ \<Rightarrow> [])"

definition server_errors :: "event list \<Rightarrow> string list" where
  "server_errors tr = concat (map server_error_msg tr)"

text \<open>The paths written by the fetch, and the paths written by the conversion.\<close>

definition raw_path :: "event \<Rightarrow> string list" where
  "raw_path e = (case e of WriteFile p b \<Rightarrow> [p] | _ \<Rightarrow> [])"

definition raw_written :: "event list \<Rightarrow> string list" where
  "raw_written tr = concat (map raw_path tr)"

definition gray_path :: "event \<Rightarrow> string list" where
  "gray_path e = (case e of ImWrite p b \<Rightarrow> [p] | _ \<Rightarrow> [])"

definition gray_written :: "event list \<Rightarrow> string list" where
  "gray_written tr = concat (map gray_path tr)"

text \<open>
  The points of the driver's loop: the world after each call of \<open>download_image\<close> and
  after each call of \<open>to_grayscale\<close>, in the order in which the loop of \<open>main_loop\<close>
  reaches them.
\<close>

function main_states :: "'img env \<Rightarrow> string \<Rightarrow> string \<Rightarrow> string list \<Rightarrow> nat \<Rightarrow> world
    \<Rightarrow> world list" where
  "main_states env images_dir gsimages_dir image_urls i w =
     (if i < length image_urls then
        (case download_image env (image_urls ! i) (imagefile images_dir image_urls i) w of
           (Returned u, w1) \<Rightarrow>
             w1 # (case to_grayscale env (imagefile images_dir image_urls i)
                          (grayfile gsimages_dir image_urls i) w1 of
                     (Returned u', w2) \<Rightarrow>
                       w2 # main_states env images_dir gsimages_dir image_urls (i + 1) w2
                   | (Exited c, w2) \<Rightarrow> [w2]
                   | (Raised e, w2) \<Rightarrow> [w2])
         | (Exited c, w1) \<Rightarrow> [w1]
         | (Raised e, w1) \<Rightarrow> [w1])
      else [])"
  by pat_completeness auto
termination
  by (relation "measure (\<lambda>(env, images_dir, gsimages_dir, image_urls, i, w). length image_urls - i)")
     auto

declare main_states.simps [simp del]

text \<open>
  The points of a run of the script of \<open>src/\<close>, with the list of URLs it works on: the
  start, the end of acquisition and, when acquisition returned, the points of the loop.
  The cases are those of \<open>main\<close>.
\<close>

definition main_points :: "nat \<Rightarrow> 'img env \<Rightarrow> string list \<Rightarrow> world
    \<Rightarrow> (string list \<times> world list) option" where
  "main_points fuel env argv w =
     (if length argv \<le> 1 then Some ([], [w])
      else case py_int (argv ! 1) of
             None \<Rightarrow> Some ([], [w])
           | Some numimages \<Rightarrow>
               (case generate_image_urls fuel env numimages w of
                  None \<Rightarrow> None
                | Some (Returned image_urls, w1) \<Rightarrow>
                    Some (image_urls,
                          w # w1 # main_states env (IMAGES_DIR env) (GSIMAGES_DIR env)
                                     image_urls 0 w1)
                | Some (Exited c, w1) \<Rightarrow> Some ([], [w, w1])
                | Some (Raised e, w1) \<Rightarrow> Some ([], [w, w1])))"

text \<open>
  The invariant of the grayscale outputs, over the events from position \<open>k\<close> of the
  trace on: at most \<open>m\<close> grayscale files were written, and each of them is the grayscale
  file of an index \<open>j < m\<close> whose raw file, named with the same index and the same
  extension, was written too; both files exist.
\<close>

definition outputs_inv :: "string \<Rightarrow> string \<Rightarrow> string list \<Rightarrow> nat \<Rightarrow> nat \<Rightarrow> world \<Rightarrow> bool" where
  "outputs_inv images_dir gsimages_dir image_urls k m w =
     (k \<le> length (trace w) \<and>
      length (gray_written (drop k (trace w))) \<le> m \<and>
      (\<forall>p \<in> set (gray_written (drop k (trace w))).
          \<exists>j<m. p = grayfile gsimages_dir image_urls j
                \<and> imagefile images_dir image_urls j \<in> set (raw_written (drop k (trace w)))
                \<and> files w p \<noteq> None
                \<and> files w (imagefile images_dir image_urls j) \<noteq> None))"

text \<open>
  What follows the last \<open>/\<close> of a string, up to its end; the whole string when it has no
  \<open>/\<close>. For a URL this runs over the query and the fragment as well.
\<close>

definition after_last_slash :: "string \<Rightarrow> string" where
  "after_last_slash p = rev (takeWhile (\<lambda>c. c \<noteq> CHR ''/'') (rev p))"

text \<open>
  The last path segment of a URL: the query (from the first \<open>?\<close>) and the fragment (from
  the first \<open>#\<close>) are set aside, and the segment is what follows the last \<open>/\<close> of the
  rest.
\<close>

definition url_path :: "string \<Rightarrow> string" where
  "url_path url = takeWhile (\<lambda>c. c \<noteq> CHR ''?'' \<and> c \<noteq> CHR ''#'') url"

definition last_path_segment :: "string \<Rightarrow> string" where
  "last_path_segment url = after_last_slash (url_path url)"

section \<open>Example environments\<close>

definition w_empty :: world where
  "w_empty = \<lparr>trace = [], stdout = [], files = Map.empty, dirs = {}\<rparr>"

text \<open>
  A service that lists the same URL twice and one more; the first answers with status
  200 and a body that decodes, the other with 404.
\<close>

definition repeat_text :: string where
  "repeat_text = ''http://h/a.png\<newline> http://h/a.png \<newline>http://h/b''"

definition env_repeat :: "nat env" where
  "env_repeat =
     \<lparr>genai = (\<lambda>k m c. GenText (Some repeat_text)),
      http = (\<lambda>k r. if req_url r = ''http://h/a.png'' then Response 200 ''PNG''
                     else Response 404 []),
      imdecode = (\<lambda>b. if b = ''PNG'' then Some 1 else None),
      cvtColor_BGR2GRAY = (\<lambda>i. i),
      imencode = (\<lambda>p i. Encoded ''GRAY''),
      base_dir = ''/app/src''\<rparr>"

definition w_repeat :: world where
  "w_repeat =
     \<lparr>trace = [GenerateContent GENAI_MODEL (generation_prompt 2) (GenText (Some repeat_text)),
               GenerateContent GENAI_MODEL (extraction_prompt (Some repeat_text))
                 (GenText (Some repeat_text)),
               HttpGet \<lparr>req_url = ''http://h/a.png'', req_user_agent = None,
                        req_timeout = Some 5\<rparr> (Response 200 ''PNG''),
               HttpGet \<lparr>req_url = ''http://h/a.png'', req_user_agent = None,
                        req_timeout = Some 5\<rparr> (Response 200 ''PNG'')],
      stdout = [], files = Map.empty, dirs = {}\<rparr>"

text \<open>A service that is overloaded.\<close>

definition env_unavailable :: "nat env" where
  "env_unavailable =
     \<lparr>genai = (\<lambda>k m c. ServerError ''503 UNAVAILABLE''),
      http = (\<lambda>k r. Response 200 ''PNG''),
      imdecode = (\<lambda>b. Some 1),
      cvtColor_BGR2GRAY = (\<lambda>i. i),
      imencode = (\<lambda>p i. Encoded ''GRAY''),
      base_dir = ''/app/src''\<rparr>"

definition w_unavailable :: world where
  "w_unavailable =
     \<lparr>trace = [GenerateContent GENAI_MODEL (generation_prompt 1) (ServerError ''503 UNAVAILABLE'')],
      stdout = [''Error: 503 UNAVAILABLE''], files = Map.empty, dirs = {}\<rparr>"

text \<open>A service that answers the first request and fails on the second.\<close>

definition env_flaky :: "nat env" where
  "env_flaky =
     \<lparr>genai = (\<lambda>k m c. if k = 0 then GenText (Some ''see http://h/a.png'')
                        else ServerError ''500 INTERNAL''),
      http = (\<lambda>k r. Response 200 ''PNG''),
      imdecode = (\<lambda>b. Some 1),
      cvtColor_BGR2GRAY = (\<lambda>i. i),
      imencode = (\<lambda>p i. Encoded ''GRAY''),
      base_dir = ''/app/src''\<rparr>"

text \<open>No network: every GET raises.\<close>

definition env_offline :: "nat env" where
  "env_offline =
     \<lparr>genai = (\<lambda>k m c. GenText (Some repeat_text)),
      http = (\<lambda>k r. RequestException ''Connection refused''),
      imdecode = (\<lambda>b. Some 1),
      cvtColor_BGR2GRAY = (\<lambda>i. i),
      imencode = (\<lambda>p i. Encoded ''GRAY''),
      base_dir = ''/app/src''\<rparr>"

text \<open>Servers that answer every GET with status 200 and bytes that are no image.\<close>

definition env_corrupt :: "nat env" where
  "env_corrupt =
     \<lparr>genai = (\<lambda>k m c. GenText (Some repeat_text)),
      http = (\<lambda>k r. Response 200 ''<html>''),
      imdecode = (\<lambda>b. None),
      cvtColor_BGR2GRAY = (\<lambda>i. i),
      imencode = (\<lambda>p i. Encoded ''GRAY''),
      base_dir = ''/app/src''\<rparr>"

text \<open>The world after the script of \<open>src/\<close> has produced two images against \<open>env_repeat\<close>.\<close>

definition w_done :: world where
  "w_done =
     \<lparr>trace = trace w_repeat @
        [HttpGet \<lparr>req_url = ''http://h/a.png'', req_user_agent = Some useragent,
                 req_timeout = None\<rparr> (Response 200 ''PNG''),
         WriteFile ''/app/src/../images/1.png'' ''PNG'',
         ImWrite ''/app/src/../gs-images/1.png'' ''GRAY'',
         HttpGet \<lparr>req_url = ''http://h/a.png'', req_user_agent = Some useragent,
                 req_timeout = None\<rparr> (Response 200 ''PNG''),
         WriteFile ''/app/src/../images/2.png'' ''PNG'',
         ImWrite ''/app/src/../gs-images/2.png'' ''GRAY''],
      stdout = [],
      files = [''/app/src/../images/1.png'' \<mapsto> ''PNG'',
               ''/app/src/../gs-images/1.png'' \<mapsto> ''GRAY'',
               ''/app/src/../images/2.png'' \<mapsto> ''PNG'',
               ''/app/src/../gs-images/2.png'' \<mapsto> ''GRAY''],
      dirs = {''/app/src/../images'', ''/app/src/../gs-images''}\<rparr>"

section \<open>Properties of URL acquisition\<close>

lemma gets_200_Nil: "gets_200 [] = []"
  by (simp add: gets_200_def)

lemma gets_200_Cons: "gets_200 (e # es) = ok_url e @ gets_200 es"
  by (simp add: gets_200_def)

lemma gets_200_append: "gets_200 (xs @ ys) = gets_200 xs @ gets_200 ys"
  by (simp add: gets_200_def)

lemma server_errors_Nil: "server_errors [] = []"
  by (simp add: server_errors_def)

lemma server_errors_Cons: "server_errors (e # es) = server_error_msg e @ server_errors es"
  by (simp add: server_errors_def)

lemma server_errors_append: "server_errors (xs @ ys) = server_errors xs @ server_errors ys"
  by (simp add: server_errors_def)

lemma raw_written_Nil: "raw_written [] = []"
  by (simp add: raw_written_def)

lemma raw_written_Cons: "raw_written (e # es) = raw_path e @ raw_written es"
  by (simp add: raw_written_def)

lemma raw_written_append: "raw_written (xs @ ys) = raw_written xs @ raw_written ys"
  by (simp add: raw_written_def)

lemma gray_written_Nil: "gray_written [] = []"
  by (simp add: gray_written_def)

lemma gray_written_Cons: "gray_written (e # es) = gray_path e @ gray_written es"
  by (simp add: gray_written_def)

lemma gray_written_append: "gray_written (xs @ ys) = gray_written xs @ gray_written ys"
  by (simp add: gray_written_def)

lemma gen_event_simps:
  "ok_url (GenerateContent m c r) = []"
  "server_error_msg (GenerateContent m c (ServerError msg)) = [msg]"
  "server_error_msg (GenerateContent m c (ClientError msg)) = []"
  "server_error_msg (GenerateContent m c (GenText t)) = []"
  "server_error_msg (HttpGet q a) = []"
  "raw_path (GenerateContent m c r) = []"
  "raw_path (HttpGet q a) = []"
  "raw_path (WriteFile p b) = [p]"
  "raw_path (ImWrite p b) = []"
  "gray_path (GenerateContent m c r) = []"
  "gray_path (HttpGet q a) = []"
  "gray_path (WriteFile p b) = []"
  "gray_path (ImWrite p b) = [p]"
  by (simp_all add: ok_url_def server_error_msg_def raw_path_def gray_path_def)

lemmas trace_simps = gets_200_Nil gets_200_Cons gets_200_append
  server_errors_Nil server_errors_Cons server_errors_append
  raw_written_Nil raw_written_Cons raw_written_append
  gray_written_Nil gray_written_Cons gray_written_append gen_event_simps

lemma server_error_mem:
  "GenerateContent m c (ServerError msg) \<in> set tr \<Longrightarrow> msg \<in> set (server_errors tr)"
  by (induction tr) (auto simp: trace_simps)

text \<open>One reachability check adds one event; its URL counts exactly when the answer is yes.\<close>

lemma is_accessible_trace:
  assumes "is_accessible env url w = (ok, w')"
  shows "\<exists>e. trace w' = trace w @ [e] \<and> ok_url e = (if ok then [url] else [])
           \<and> server_error_msg e = [] \<and> raw_path e = [] \<and> gray_path e = []
           \<and> files w' = files w \<and> dirs w' = dirs w"
  using assms
  by (auto simp: is_accessible_def requests_get_def Let_def print_def ok_url_def
                 server_error_msg_def raw_path_def gray_path_def
           split: get_outcome.splits)

text \<open>
  The inner loop appends to the list exactly the URLs whose check was answered with 200,
  and never lets it grow beyond the requested count.
\<close>

lemma for_urls_inv:
  assumes "for_urls env n cands acc w = (acc', w')"
  shows "\<exists>tr. trace w' = trace w @ tr \<and> acc' = acc @ gets_200 tr \<and> server_errors tr = []
            \<and> raw_written tr = [] \<and> gray_written tr = []
            \<and> files w' = files w \<and> dirs w' = dirs w
            \<and> (int (length acc) < n \<longrightarrow> int (length acc') \<le> n)"
  using assms
proof (induction cands arbitrary: acc w)
  case Nil
  then show ?case by (auto simp: trace_simps)
next
  case (Cons u us)
  obtain ok w1 where acc1: "is_accessible env (strip u) w = (ok, w1)"
    by (cases "is_accessible env (strip u) w")
  from is_accessible_trace[OF acc1] obtain e where
    e: "trace w1 = trace w @ [e]" "ok_url e = (if ok then [strip u] else [])"
       "server_error_msg e = []" "raw_path e = []" "gray_path e = []"
       "files w1 = files w" "dirs w1 = dirs w" by blast
  let ?acc1 = "if ok then acc @ [strip u] else acc"
  have acc1_eq: "?acc1 = acc @ ok_url e" using e(2) by simp
  show ?case
  proof (cases "int (length ?acc1) = n")
    case True
    with Cons.prems acc1 have "acc' = ?acc1" "w' = w1" by (auto simp: Let_def)
    with e acc1_eq True show ?thesis
      by (intro exI[of _ "[e]"]) (auto simp: trace_simps)
  next
    case False
    with Cons.prems acc1 have "for_urls env n us ?acc1 w1 = (acc', w')"
      by (auto simp: Let_def)
    from Cons.IH[OF this] obtain tr where
      tr: "trace w' = trace w1 @ tr" "acc' = ?acc1 @ gets_200 tr" "server_errors tr = []"
          "raw_written tr = []" "gray_written tr = []"
          "files w' = files w1" "dirs w' = dirs w1"
          "int (length ?acc1) < n \<longrightarrow> int (length acc') \<le> n" by blast
    have "int (length acc) < n \<longrightarrow> int (length acc') \<le> n"
      using tr(8) False by (auto split: if_splits)
    with tr e acc1_eq show ?thesis
      by (intro exI[of _ "e # tr"]) (auto simp: trace_simps)
  qed
qed

lemma generate_content_trace:
  assumes "generate_content env c w = (r, w1)"
  shows "trace w1 = trace w @ [GenerateContent GENAI_MODEL c r] \<and> stdout w1 = stdout w
         \<and> files w1 = files w \<and> dirs w1 = dirs w"
  using assms by (auto simp: generate_content_def Let_def)

lemma while_loop_done:
  "\<not> int (length acc) < n \<Longrightarrow> while_loop fuel env n acc w = Some (Returned acc, w)"
  by (simp add: while_loop.simps)

text \<open>
  What the outer loop has done when it ends, whichever way: the events it added, and how
  they relate to the way it ended.
\<close>

lemma while_loop_inv:
  assumes "while_loop fuel env n acc w = Some (r, w')"
  shows "\<exists>tr. trace w' = trace w @ tr \<and> files w' = files w \<and> dirs w' = dirs w \<and>
           raw_written tr = [] \<and> gray_written tr = [] \<and>
           (\<forall>urls. r = Returned urls \<longrightarrow>
               urls = acc @ gets_200 tr \<and> server_errors tr = [] \<and> n \<le> int (length urls)
               \<and> (int (length acc) \<le> n \<longrightarrow> int (length urls) = n)) \<and>
           (\<forall>c. r = Exited c \<longrightarrow>
               c = 1 \<and> stdout w' \<noteq> [] \<and> server_errors tr = [drop 7 (last (stdout w'))]
               \<and> take 7 (last (stdout w')) = ''Error: '') \<and>
           (\<forall>e. r = Raised e \<longrightarrow> server_errors tr = [])"
  using assms
proof (induction fuel arbitrary: acc w)
  case 0
  then have "r = Returned acc" "w' = w"
    by (auto simp: while_loop.simps split: if_splits)
  then show ?case
    using 0 by (intro exI[of _ "[]"]) (auto simp: trace_simps while_loop.simps split: if_splits)
next
  case (Suc k)
  show ?case
  proof (cases "int (length acc) < n")
    case False
    with Suc.prems have "r = Returned acc" "w' = w"
      by (auto simp: while_loop.simps)
    with False show ?thesis
      by (intro exI[of _ "[]"]) (auto simp: trace_simps)
  next
    case True
    obtain r1 w1 where g1: "generate_content env (generation_prompt n) w = (r1, w1)"
      by (cases "generate_content env (generation_prompt n) w")
    note t1 = generate_content_trace[OF g1]
    let ?e1 = "GenerateContent GENAI_MODEL (generation_prompt n) r1"
    show ?thesis
    proof (cases r1)
      case (ServerError m)
      with Suc.prems True g1 have "r = Exited 1" "w' = print (''Error: '' @ m) w1"
        by (auto simp: while_loop.simps)
      with t1 ServerError show ?thesis
        by (intro exI[of _ "[?e1]"]) (auto simp: trace_simps print_def)
    next
      case (ClientError m)
      with Suc.prems True g1 have "r = Raised (ClientErrorE m)" "w' = w1"
        by (auto simp: while_loop.simps)
      with t1 ClientError show ?thesis
        by (intro exI[of _ "[?e1]"]) (auto simp: trace_simps)
    next
      case (GenText gt)
      note G1 = this
      obtain r2 w2 where g2: "generate_content env (extraction_prompt gt) w1 = (r2, w2)"
        by (cases "generate_content env (extraction_prompt gt) w1")
      note t2 = generate_content_trace[OF g2]
      let ?e2 = "GenerateContent GENAI_MODEL (extraction_prompt gt) r2"
      show ?thesis
      proof (cases r2)
        case (ServerError m)
        with Suc.prems True g1 g2 G1 have "r = Exited 1" "w' = print (''Error: '' @ m) w2"
          by (auto simp: while_loop.simps)
        with t1 t2 ServerError G1 show ?thesis
          by (intro exI[of _ "[?e1, ?e2]"]) (auto simp: trace_simps print_def)
      next
        case (ClientError m)
        with Suc.prems True g1 g2 G1 have "r = Raised (ClientErrorE m)" "w' = w2"
          by (auto simp: while_loop.simps)
        with t1 t2 ClientError G1 show ?thesis
          by (intro exI[of _ "[?e1, ?e2]"]) (auto simp: trace_simps)
      next
        case (GenText et)
        note G2 = this
        show ?thesis
        proof (cases et)
          case None
          with Suc.prems True g1 g2 G1 G2
          have "r = Raised AttributeError" "w' = w2"
            by (auto simp: while_loop.simps)
          with t1 t2 G1 G2 show ?thesis
            by (intro exI[of _ "[?e1, ?e2]"]) (auto simp: trace_simps)
        next
          case (Some etext)
          obtain acc1 w3 where f: "for_urls env n (split_nl (strip etext)) acc w2 = (acc1, w3)"
            by (cases "for_urls env n (split_nl (strip etext)) acc w2")
          from for_urls_inv[OF f] obtain tr3 where
            tr3: "trace w3 = trace w2 @ tr3" "acc1 = acc @ gets_200 tr3" "server_errors tr3 = []"
                 "files w3 = files w2" "dirs w3 = dirs w2"
                 "int (length acc) < n \<longrightarrow> int (length acc1) \<le> n"
                 "raw_written tr3 = []" "gray_written tr3 = []" by blast
          from Suc.prems True g1 g2 G1 G2 Some f
          have rec: "while_loop k env n acc1 w3 = Some (r, w')"
            by (auto simp: while_loop.simps)
          from Suc.IH[OF rec] obtain tr4 where
            tr4: "trace w' = trace w3 @ tr4" "files w' = files w3" "dirs w' = dirs w3"
              "\<forall>urls. r = Returned urls \<longrightarrow>
                 urls = acc1 @ gets_200 tr4 \<and> server_errors tr4 = [] \<and> n \<le> int (length urls)
                 \<and> (int (length acc1) \<le> n \<longrightarrow> int (length urls) = n)"
              "\<forall>c. r = Exited c \<longrightarrow>
                 c = 1 \<and> stdout w' \<noteq> [] \<and> server_errors tr4 = [drop 7 (last (stdout w'))]
                 \<and> take 7 (last (stdout w')) = ''Error: ''"
              "\<forall>e. r = Raised e \<longrightarrow> server_errors tr4 = []"
              "raw_written tr4 = []" "gray_written tr4 = []" by blast
          let ?tr = "[?e1, ?e2] @ tr3 @ tr4"
          have se: "server_errors ?tr = server_errors tr4"
            using G1 G2 tr3(3) by (simp add: trace_simps)
          have gg: "gets_200 ?tr = gets_200 tr3 @ gets_200 tr4"
            by (simp add: trace_simps)
          have tr: "trace w' = trace w @ ?tr"
            using t1 t2 tr3(1) tr4(1) by simp
          have fd: "files w' = files w" "dirs w' = dirs w"
            using t1 t2 tr3 tr4 by simp_all
          have wr: "raw_written ?tr = []" "gray_written ?tr = []"
            using tr3(7,8) tr4(7,8) by (simp_all add: trace_simps)
          show ?thesis
            apply (rule exI[of _ ?tr])
            apply (intro conjI)
            subgoal using tr .
            subgoal using fd(1) .
            subgoal using fd(2) .
            subgoal using wr(1) .
            subgoal using wr(2) .
            subgoal using tr4(4) tr3(2,6) True unfolding se gg by auto
            subgoal using tr4(5) unfolding se by auto
            subgoal using tr4(6) unfolding se by auto
            done
        qed
      qed
    qed
  qed
qed

text \<open>A result does not depend on the bound: more iterations allowed, same result.\<close>

lemma while_loop_fuel_mono:
  "while_loop fuel env n acc w = Some res \<Longrightarrow> while_loop (fuel + extra) env n acc w = Some res"
proof (induction fuel arbitrary: acc w)
  case 0
  then show ?case by (auto simp: while_loop.simps split: if_splits)
next
  case (Suc k)
  show ?case
  proof (cases "int (length acc) < n")
    case False
    with Suc.prems show ?thesis by (simp add: while_loop.simps)
  next
    case True
    with Suc.prems Suc.IH show ?thesis
      by (auto simp: while_loop.simps[of "Suc k"] while_loop.simps[of "Suc (k + extra)"]
               split: prod.splits gen_outcome.splits option.splits)
  qed
qed




text \<open>
  C5. When a request to the text-generation service is answered with a server error
  during acquisition, the call ends by exiting with status 1, and the last line printed
  is \<open>Error:\<close> followed by the message of that error; a call that returns never returns
  fewer than \<open>N\<close> URLs. The call does end there: at any iteration of the loop, a server
  error as the answer to the generation request, or to the extraction request, makes
  that iteration the last one, however many more were allowed.
\<close>

theorem server_error_exits:
  "(generate_image_urls fuel env n w = Some (r, w') \<longrightarrow>
      (GenerateContent m c (ServerError msg) \<in> set (drop (length (trace w)) (trace w'))
         \<longrightarrow> r = Exited 1 \<and> stdout w' \<noteq> [] \<and> last (stdout w') = ''Error: '' @ msg)
      \<and> (\<forall>urls. r = Returned urls \<longrightarrow> \<not> int (length urls) < n))
   \<and> (int (length image_urls) < n
        \<and> generate_content env (generation_prompt n) w0 = (ServerError msg1, w1)
      \<longrightarrow> while_loop (Suc k) env n image_urls w0
            = Some (Exited 1, print (''Error: '' @ msg1) w1))
   \<and> (int (length image_urls) < n
        \<and> generate_content env (generation_prompt n) w0 = (GenText t, w1)
        \<and> generate_content env (extraction_prompt t) w1 = (ServerError msg2, w2)
      \<longrightarrow> while_loop (Suc k) env n image_urls w0
            = Some (Exited 1, print (''Error: '' @ msg2) w2))"
proof (intro conjI impI)
  assume run: "generate_image_urls fuel env n w = Some (r, w')"
  then have "while_loop fuel env n [] w = Some (r, w')"
    by (simp add: generate_image_urls_def)
  from while_loop_inv[OF this] obtain tr where
    tr: "trace w' = trace w @ tr"
      "\<forall>urls. r = Returned urls \<longrightarrow> server_errors tr = [] \<and> n \<le> int (length urls)"
      "\<forall>c. r = Exited c \<longrightarrow>
         c = 1 \<and> stdout w' \<noteq> [] \<and> server_errors tr = [drop 7 (last (stdout w'))]
         \<and> take 7 (last (stdout w')) = ''Error: ''"
      "\<forall>e. r = Raised e \<longrightarrow> server_errors tr = []" by blast
  have d: "drop (length (trace w)) (trace w') = tr" using tr(1) by simp
  show "\<forall>urls. r = Returned urls \<longrightarrow> \<not> int (length urls) < n"
    using tr(2) by auto
  assume "GenerateContent m c (ServerError msg) \<in> set (drop (length (trace w)) (trace w'))"
  then have mem: "GenerateContent m c (ServerError msg) \<in> set tr" unfolding d .
  from server_error_mem[OF mem] have ne: "msg \<in> set (server_errors tr)" .
  then have "server_errors tr \<noteq> []" by auto
  with tr(2,4) obtain c' where r: "r = Exited c'" by (cases r) auto
  with tr(3) have c: "c' = 1" "stdout w' \<noteq> []"
    "server_errors tr = [drop 7 (last (stdout w'))]"
    "take 7 (last (stdout w')) = ''Error: ''" by auto
  from ne c(3) have "msg = drop 7 (last (stdout w'))" by simp
  with c(4) have l: "last (stdout w') = ''Error: '' @ msg"
    using append_take_drop_id[of 7 "last (stdout w')"] by simp
  show "r = Exited 1" using r c(1) by simp
  show "stdout w' \<noteq> []" using c(2) .
  show "last (stdout w') = ''Error: '' @ msg" using l .
next
  assume "int (length image_urls) < n
        \<and> generate_content env (generation_prompt n) w0 = (ServerError msg1, w1)"
  then show "while_loop (Suc k) env n image_urls w0
            = Some (Exited 1, print (''Error: '' @ msg1) w1)"
    by (simp add: while_loop.simps)
next
  assume "int (length image_urls) < n
        \<and> generate_content env (generation_prompt n) w0 = (GenText t, w1)
        \<and> generate_content env (extraction_prompt t) w1 = (ServerError msg2, w2)"
  then show "while_loop (Suc k) env n image_urls w0
            = Some (Exited 1, print (''Error: '' @ msg2) w2)"
    by (simp add: while_loop.simps)
qed

theorem server_error_exits_witness:
  "generate_image_urls 1 env_unavailable 1 w_empty = Some (Exited 1, w_unavailable)
   \<and> GenerateContent GENAI_MODEL (generation_prompt 1) (ServerError ''503 UNAVAILABLE'')
       \<in> set (drop (length (trace w_empty)) (trace w_unavailable))
   \<and> stdout w_unavailable \<noteq> []
   \<and> last (stdout w_unavailable) = ''Error: '' @ ''503 UNAVAILABLE''
   \<and> int (length ([]::string list)) < 1
   \<and> generate_content env_unavailable (generation_prompt 1) w_empty
       = (ServerError ''503 UNAVAILABLE'',
          w_empty\<lparr>trace := [GenerateContent GENAI_MODEL (generation_prompt 1)
                               (ServerError ''503 UNAVAILABLE'')]\<rparr>)
   \<and> while_loop (Suc 4) env_unavailable 1 [] w_empty
       = Some (Exited 1, print (''Error: '' @ ''503 UNAVAILABLE'')
                (w_empty\<lparr>trace := [GenerateContent GENAI_MODEL (generation_prompt 1)
                               (ServerError ''503 UNAVAILABLE'')]\<rparr>))
   \<and> generate_content env_flaky (generation_prompt 1) w_empty
       = (GenText (Some ''see http://h/a.png''),
          w_empty\<lparr>trace := [GenerateContent GENAI_MODEL (generation_prompt 1)
                               (GenText (Some ''see http://h/a.png''))]\<rparr>)
   \<and> generate_content env_flaky (extraction_prompt (Some ''see http://h/a.png''))
        (w_empty\<lparr>trace := [GenerateContent GENAI_MODEL (generation_prompt 1)
                               (GenText (Some ''see http://h/a.png''))]\<rparr>)
       = (ServerError ''500 INTERNAL'',
          w_empty\<lparr>trace := [GenerateContent GENAI_MODEL (generation_prompt 1)
                               (GenText (Some ''see http://h/a.png'')),
                             GenerateContent GENAI_MODEL
                               (extraction_prompt (Some ''see http://h/a.png''))
                               (ServerError ''500 INTERNAL'')]\<rparr>)
   \<and> while_loop (Suc 4) env_flaky 1 [] w_empty
       = Some (Exited 1, print (''Error: '' @ ''500 INTERNAL'')
                (w_empty\<lparr>trace := [GenerateContent GENAI_MODEL (generation_prompt 1)
                               (GenText (Some ''see http://h/a.png'')),
                             GenerateContent GENAI_MODEL
                               (extraction_prompt (Some ''see http://h/a.png''))
                               (ServerError ''500 INTERNAL'')]\<rparr>))"
proof -
  let ?wa = "w_empty\<lparr>trace := [GenerateContent GENAI_MODEL (generation_prompt 1)
                               (ServerError ''503 UNAVAILABLE'')]\<rparr>"
  let ?wb = "w_empty\<lparr>trace := [GenerateContent GENAI_MODEL (generation_prompt 1)
                               (GenText (Some ''see http://h/a.png''))]\<rparr>"
  let ?wc = "w_empty\<lparr>trace := [GenerateContent GENAI_MODEL (generation_prompt 1)
                               (GenText (Some ''see http://h/a.png'')),
                             GenerateContent GENAI_MODEL
                               (extraction_prompt (Some ''see http://h/a.png''))
                               (ServerError ''500 INTERNAL'')]\<rparr>"
  have run: "generate_image_urls 1 env_unavailable 1 w_empty = Some (Exited 1, w_unavailable)"
    by (simp add: generate_image_urls_def while_loop.simps generate_content_def
        env_unavailable_def w_empty_def w_unavailable_def print_def Let_def)
  have mem: "GenerateContent GENAI_MODEL (generation_prompt 1) (ServerError ''503 UNAVAILABLE'')
       \<in> set (drop (length (trace w_empty)) (trace w_unavailable))"
    by (simp add: w_empty_def w_unavailable_def)
  have len: "int (length ([]::string list)) < 1" by simp
  have g1: "generate_content env_unavailable (generation_prompt 1) w_empty
       = (ServerError ''503 UNAVAILABLE'', ?wa)"
    by (simp add: generate_content_def env_unavailable_def w_empty_def Let_def)
  have g2: "generate_content env_flaky (generation_prompt 1) w_empty
       = (GenText (Some ''see http://h/a.png''), ?wb)"
    by (simp add: generate_content_def env_flaky_def w_empty_def Let_def)
  have g3: "generate_content env_flaky (extraction_prompt (Some ''see http://h/a.png'')) ?wb
       = (ServerError ''500 INTERNAL'', ?wc)"
    by (simp add: generate_content_def env_flaky_def w_empty_def Let_def)
  note thm1 = server_error_exits[of 1 env_unavailable 1 w_empty "Exited 1" w_unavailable
      GENAI_MODEL "generation_prompt 1" "''503 UNAVAILABLE''" "[]" w_empty
      "''503 UNAVAILABLE''" ?wa 4 "Some ''see http://h/a.png''" "''500 INTERNAL''" ?wc]
  note thm2 = server_error_exits[of 1 env_flaky 1 w_empty "Exited 1" w_unavailable
      GENAI_MODEL "generation_prompt 1" "''503 UNAVAILABLE''" "[]" w_empty
      "''503 UNAVAILABLE''" ?wb 4 "Some ''see http://h/a.png''" "''500 INTERNAL''" ?wc]
  from thm1 run mem have a: "stdout w_unavailable \<noteq> []"
      "last (stdout w_unavailable) = ''Error: '' @ ''503 UNAVAILABLE''" by blast+
  from thm1 len g1 have b: "while_loop (Suc 4) env_unavailable 1 [] w_empty
       = Some (Exited 1, print (''Error: '' @ ''503 UNAVAILABLE'') ?wa)" by blast
  from thm2 len g2 g3 have c: "while_loop (Suc 4) env_flaky 1 [] w_empty
       = Some (Exited 1, print (''Error: '' @ ''500 INTERNAL'') ?wc)" by blast
  from run mem a len g1 b g2 g3 c show ?thesis by blast
qed

text \<open>
  C8. For a count of zero or less, the call returns the empty list at once: the world is
  the one it started in, so no request was made and nothing was printed.
\<close>

theorem generate_image_urls_nonpositive:
  "n \<le> 0 \<Longrightarrow> generate_image_urls fuel env n w = Some (Returned [], w)"
  by (simp add: generate_image_urls_def while_loop.simps)

theorem generate_image_urls_nonpositive_witness:
  "(0::int) \<le> 0 \<and> generate_image_urls 0 env_repeat 0 w_empty = Some (Returned [], w_empty)
   \<and> (- 3::int) \<le> 0 \<and> generate_image_urls 0 env_repeat (- 3) w_empty = Some (Returned [], w_empty)"
  using generate_image_urls_nonpositive[of 0 0 env_repeat w_empty]
        generate_image_urls_nonpositive[of "- 3" 0 env_repeat w_empty]
  by simp


section \<open>Properties of the reachability check, fetch and conversion\<close>

text \<open>
  C6. A reachability GET that raises \<open>RequestException\<close> (a malformed URL, a network
  error, a timeout) or \<open>ValueError\<close> does not leave \<open>is_accessible\<close> as an exception: the
  function prints the error and returns \<open>False\<close>. The loop over the candidates then goes
  on with the next candidate, the list of accepted URLs unchanged (it stops only if the
  list already had the requested length).
\<close>

theorem is_accessible_catches:
  assumes "http env (length (trace w))
             \<lparr>req_url = strip u, req_user_agent = None, req_timeout = Some 5\<rparr> = RequestException e
           \<or> http env (length (trace w))
             \<lparr>req_url = strip u, req_user_agent = None, req_timeout = Some 5\<rparr> = ValueError e"
  shows "is_accessible env (strip u) w =
           (False, print (''Error accessing '' @ strip u @ '': '' @ e)
              (w\<lparr>trace := trace w @
                 [HttpGet \<lparr>req_url = strip u, req_user_agent = None, req_timeout = Some 5\<rparr>
                    (http env (length (trace w))
                       \<lparr>req_url = strip u, req_user_agent = None, req_timeout = Some 5\<rparr>)]\<rparr>))
         \<and> for_urls env n (u # urls) image_urls w =
             (if int (length image_urls) = n
              then (image_urls, snd (is_accessible env (strip u) w))
              else for_urls env n urls image_urls (snd (is_accessible env (strip u) w)))"
proof -
  have acc: "is_accessible env (strip u) w =
           (False, print (''Error accessing '' @ strip u @ '': '' @ e)
              (w\<lparr>trace := trace w @
                 [HttpGet \<lparr>req_url = strip u, req_user_agent = None, req_timeout = Some 5\<rparr>
                    (http env (length (trace w))
                       \<lparr>req_url = strip u, req_user_agent = None, req_timeout = Some 5\<rparr>)]\<rparr>))"
    using assms by (auto simp: is_accessible_def requests_get_def Let_def)
  then have "for_urls env n (u # urls) image_urls w =
             (if int (length image_urls) = n
              then (image_urls, snd (is_accessible env (strip u) w))
              else for_urls env n urls image_urls (snd (is_accessible env (strip u) w)))"
    by (simp add: Let_def)
  with acc show ?thesis by blast
qed

theorem is_accessible_catches_witness:
  "http env_offline (length (trace w_empty))
      \<lparr>req_url = strip '' ht!tp://x '', req_user_agent = None, req_timeout = Some 5\<rparr>
     = RequestException ''Connection refused''
   \<and> is_accessible env_offline (strip '' ht!tp://x '') w_empty =
       (False, \<lparr>trace = [HttpGet \<lparr>req_url = ''ht!tp://x'', req_user_agent = None,
                                   req_timeout = Some 5\<rparr>
                           (RequestException ''Connection refused'')],
                stdout = [''Error accessing ht!tp://x: Connection refused''],
                files = Map.empty, dirs = {}\<rparr>)
   \<and> for_urls env_offline 1 ['' ht!tp://x ''] [] w_empty =
       ([], \<lparr>trace = [HttpGet \<lparr>req_url = ''ht!tp://x'', req_user_agent = None,
                                   req_timeout = Some 5\<rparr>
                           (RequestException ''Connection refused'')],
                stdout = [''Error accessing ht!tp://x: Connection refused''],
                files = Map.empty, dirs = {}\<rparr>)"
proof -
  have h: "http env_offline (length (trace w_empty))
      \<lparr>req_url = strip '' ht!tp://x '', req_user_agent = None, req_timeout = Some 5\<rparr>
     = RequestException ''Connection refused''"
    by (simp add: env_offline_def)
  have s: "strip '' ht!tp://x '' = ''ht!tp://x''"
    by (simp add: strip_def is_space_def)
  from is_accessible_catches[of env_offline w_empty "'' ht!tp://x ''" "''Connection refused''"
         1 "[]" "[]", OF disjI1, OF h] h
  show ?thesis
    by (simp add: s env_offline_def w_empty_def print_def)
qed

text \<open>
  C3. A download whose GET is answered with a status other than 200 prints an error and
  exits with status 1; the world it leaves differs from the one it found only by the
  request and the printed line, so no file was created or written and no directory
  made. Whatever the answer, the files change only when the status is 200, and then by
  the destination receiving the whole body.
\<close>

theorem download_image_non200:
  "(http env (length (trace w))
       \<lparr>req_url = url, req_user_agent = Some useragent, req_timeout = None\<rparr>
      = Response status_code content \<and> status_code \<noteq> 200
    \<longrightarrow> download_image env url filename w =
          (Exited 1, print (''Error while downloading image from '' @ url)
             (w\<lparr>trace := trace w @
                [HttpGet \<lparr>req_url = url, req_user_agent = Some useragent, req_timeout = None\<rparr>
                   (Response status_code content)]\<rparr>))
        \<and> files (snd (download_image env url filename w)) = files w
        \<and> dirs (snd (download_image env url filename w)) = dirs w)
   \<and> (files (snd (download_image env url filename w)) \<noteq> files w
    \<longrightarrow> (\<exists>body. http env (length (trace w))
                  \<lparr>req_url = url, req_user_agent = Some useragent, req_timeout = None\<rparr>
                 = Response 200 body
              \<and> fst (download_image env url filename w) = Returned ()
              \<and> files (snd (download_image env url filename w)) = (files w)(filename \<mapsto> body)))"
  by (auto simp: download_image_def requests_get_def makedirs_def write_file_def print_def
                 Let_def
           split: get_outcome.splits)

theorem download_image_non200_witness:
  "http env_repeat (length (trace w_empty))
       \<lparr>req_url = ''http://h/b'', req_user_agent = Some useragent, req_timeout = None\<rparr>
      = Response 404 [] \<and> (404::int) \<noteq> 200
   \<and> download_image env_repeat ''http://h/b'' ''/app/images/1'' w_empty =
       (Exited 1,
        \<lparr>trace = [HttpGet \<lparr>req_url = ''http://h/b'', req_user_agent = Some useragent,
                           req_timeout = None\<rparr> (Response 404 [])],
         stdout = [''Error while downloading image from http://h/b''],
         files = Map.empty, dirs = {}\<rparr>)"
proof -
  have h: "http env_repeat (length (trace w_empty))
       \<lparr>req_url = ''http://h/b'', req_user_agent = Some useragent, req_timeout = None\<rparr>
      = Response 404 [] \<and> (404::int) \<noteq> 200"
    by (simp add: env_repeat_def)
  from download_image_non200[of env_repeat w_empty "''http://h/b''" 404 "[]" "''/app/images/1''"] h
  show ?thesis
    by (simp add: w_empty_def print_def)
qed

text \<open>
  C4. When the source image does not read, \<open>to_grayscale\<close> prints an error and returns:
  the world differs only by the printed line, so no file was written and no directory
  made. In the driver the failure ends nothing: the loop goes on with the next image.
\<close>

theorem to_grayscale_unreadable:
  assumes "imread env input_image w = None"
  shows "to_grayscale env input_image output_image w =
           (Returned (), print (''Error: could not read '' @ input_image) w)
         \<and> (\<forall>images_dir gsimages_dir image_urls i w0.
               i < length image_urls
               \<and> input_image = imagefile images_dir image_urls i
               \<and> output_image = grayfile gsimages_dir image_urls i
               \<and> download_image env (image_urls ! i) input_image w0 = (Returned (), w)
               \<longrightarrow> main_loop env images_dir gsimages_dir image_urls i w0 =
                     main_loop env images_dir gsimages_dir image_urls (i + 1)
                       (print (''Error: could not read '' @ input_image) w))"
proof -
  have g: "to_grayscale env input_image output_image w =
           (Returned (), print (''Error: could not read '' @ input_image) w)"
    using assms by (simp add: to_grayscale_def)
  have "main_loop env images_dir gsimages_dir image_urls i w0 =
          main_loop env images_dir gsimages_dir image_urls (i + 1)
            (print (''Error: could not read '' @ input_image) w)"
    if "i < length image_urls" "input_image = imagefile images_dir image_urls i"
       "output_image = grayfile gsimages_dir image_urls i"
       "download_image env (image_urls ! i) input_image w0 = (Returned (), w)"
    for images_dir gsimages_dir image_urls i w0
    using that g by (subst main_loop.simps) simp
  with g show ?thesis by blast
qed

theorem to_grayscale_unreadable_witness:
  "download_image env_corrupt ''http://h/a.png'' (imagefile ''/d'' [''http://h/a.png''] 0) w_empty
     = (Returned (),
        \<lparr>trace = [HttpGet \<lparr>req_url = ''http://h/a.png'', req_user_agent = Some useragent,
                           req_timeout = None\<rparr> (Response 200 ''<html>''),
                  WriteFile ''/d/1.png'' ''<html>''],
         stdout = [], files = [''/d/1.png'' \<mapsto> ''<html>''], dirs = {''/d''}\<rparr>)
   \<and> imread env_corrupt ''/d/1.png''
        \<lparr>trace = [HttpGet \<lparr>req_url = ''http://h/a.png'', req_user_agent = Some useragent,
                           req_timeout = None\<rparr> (Response 200 ''<html>''),
                  WriteFile ''/d/1.png'' ''<html>''],
         stdout = [], files = [''/d/1.png'' \<mapsto> ''<html>''], dirs = {''/d''}\<rparr> = None
   \<and> main_loop env_corrupt ''/d'' ''/g'' [''http://h/a.png''] 0 w_empty
     = (Returned (),
        \<lparr>trace = [HttpGet \<lparr>req_url = ''http://h/a.png'', req_user_agent = Some useragent,
                           req_timeout = None\<rparr> (Response 200 ''<html>''),
                  WriteFile ''/d/1.png'' ''<html>''],
         stdout = [''Error: could not read /d/1.png''],
         files = [''/d/1.png'' \<mapsto> ''<html>''], dirs = {''/d''}\<rparr>)"
proof -
  let ?w = "\<lparr>trace = [HttpGet \<lparr>req_url = ''http://h/a.png'', req_user_agent = Some useragent,
                           req_timeout = None\<rparr> (Response 200 ''<html>''),
                  WriteFile ''/d/1.png'' ''<html>''],
         stdout = [], files = [''/d/1.png'' \<mapsto> ''<html>''], dirs = {''/d''}\<rparr>"
  have name: "imagefile ''/d'' [''http://h/a.png''] 0 = ''/d/1.png''"
    by (simp add: imagefile_def os_sep_def str_int_def str_nat.simps digit_chars_def
                  splitext_def rfind_def)
  have dl: "download_image env_corrupt ''http://h/a.png'' ''/d/1.png'' w_empty = (Returned (), ?w)"
    by (simp add: download_image_def requests_get_def makedirs_def write_file_def dirname_def
                  rfind_def env_corrupt_def w_empty_def Let_def)
  have rd: "imread env_corrupt ''/d/1.png'' ?w = None"
    by (simp add: imread_def env_corrupt_def)
  have fin: "main_loop env_corrupt ''/d'' ''/g'' [''http://h/a.png''] 1
               (print (''Error: could not read '' @ ''/d/1.png'') ?w)
             = (Returned (), print (''Error: could not read '' @ ''/d/1.png'') ?w)"
    by (subst main_loop.simps) simp
  from to_grayscale_unreadable[OF rd, of "grayfile ''/g'' [''http://h/a.png''] 0"]
  have "main_loop env_corrupt ''/d'' ''/g'' [''http://h/a.png''] 0 w_empty =
          main_loop env_corrupt ''/d'' ''/g'' [''http://h/a.png''] (0 + 1)
            (print (''Error: could not read '' @ ''/d/1.png'') ?w)"
    using name dl by auto
  with fin name dl rd show ?thesis by (simp add: print_def)
qed

section \<open>Properties of the driver\<close>

text \<open>
  C9. Nothing removes duplicates. With a service that lists the same reachable URL twice,
  the call for two URLs returns that URL twice, and the script of \<open>src/\<close> downloads it
  into two raw files, \<open>1.png\<close> and \<open>2.png\<close>.
\<close>

theorem no_deduplication:
  "generate_image_urls 3 env_repeat 2 w_empty
     = Some (Returned [''http://h/a.png'', ''http://h/a.png''], w_repeat)
   \<and> map_option (\<lambda>(r, w). (r, raw_written (trace w),
                            files w ''/app/src/../images/1.png'',
                            files w ''/app/src/../images/2.png''))
        (main 3 env_repeat [''imageprocessing.py'', ''2''] w_empty)
     = Some (Returned (), [''/app/src/../images/1.png'', ''/app/src/../images/2.png''],
             Some ''PNG'', Some ''PNG'')"
proof -
  have run: "generate_image_urls 3 env_repeat 2 w_empty
     = Some (Returned [''http://h/a.png'', ''http://h/a.png''], w_repeat)"
    by (simp add: generate_image_urls_def while_loop.simps generate_content_def
        is_accessible_def requests_get_def env_repeat_def w_empty_def w_repeat_def
        repeat_text_def strip_def is_space_def Let_def)
  have arg: "py_int ''2'' = Some 2"
    by (simp add: py_int_def strip_def is_space_def is_digit_def digit_chars_def
                  digits_value_def digit_value_def)
  have dirs: "IMAGES_DIR env_repeat = ''/app/src/../images''"
             "GSIMAGES_DIR env_repeat = ''/app/src/../gs-images''"
    by (simp_all add: IMAGES_DIR_def GSIMAGES_DIR_def path_join_def env_repeat_def)
  have names:
    "imagefile ''/app/src/../images'' [''http://h/a.png'', ''http://h/a.png''] 0
       = ''/app/src/../images/1.png''"
    "imagefile ''/app/src/../images'' [''http://h/a.png'', ''http://h/a.png''] (Suc 0)
       = ''/app/src/../images/2.png''"
    "grayfile ''/app/src/../gs-images'' [''http://h/a.png'', ''http://h/a.png''] 0
       = ''/app/src/../gs-images/1.png''"
    "grayfile ''/app/src/../gs-images'' [''http://h/a.png'', ''http://h/a.png''] (Suc 0)
       = ''/app/src/../gs-images/2.png''"
    by (simp_all add: imagefile_def grayfile_def os_sep_def str_int_def str_nat.simps
                      digit_chars_def splitext_def rfind_def)
  have loop: "(\<lambda>(r, w). (r, raw_written (trace w),
                            files w ''/app/src/../images/1.png'',
                            files w ''/app/src/../images/2.png''))
        (main_loop env_repeat ''/app/src/../images'' ''/app/src/../gs-images''
           [''http://h/a.png'', ''http://h/a.png''] 0 w_repeat)
     = (Returned (), [''/app/src/../images/1.png'', ''/app/src/../images/2.png''],
             Some ''PNG'', Some ''PNG'')"
    by (simp add: main_loop.simps names download_image_def to_grayscale_def requests_get_def
                  makedirs_def write_file_def imread_def dirname_def rfind_def
                  env_repeat_def w_repeat_def Let_def trace_simps)
  show ?thesis
    using run loop by (simp add: main_def arg dirs)
qed

text \<open>
  C2 holds for the script of \<open>src/\<close> and fails for the script at the top of the
  repository. Started with the argument \<open>2\<close> against the same service, the script of
  \<open>src/\<close> asks for two URLs and writes two raw files; the script at the top asks for one
  URL and writes one raw file, since its count is the constant 1.
\<close>

theorem main_toplevel_ignores_argument:
  "map_option (\<lambda>(r, w). (r, hd (trace w), raw_written (trace w)))
        (main_toplevel 3 env_repeat [''imageprocessing.py'', ''2''] w_empty)
     = Some (Returned (),
             GenerateContent GENAI_MODEL (generation_prompt 1) (GenText (Some repeat_text)),
             [''../images/1.png''])
   \<and> map_option (\<lambda>(r, w). (r, hd (trace w), raw_written (trace w)))
        (main 3 env_repeat [''imageprocessing.py'', ''2''] w_empty)
     = Some (Returned (),
             GenerateContent GENAI_MODEL (generation_prompt 2) (GenText (Some repeat_text)),
             [''/app/src/../images/1.png'', ''/app/src/../images/2.png''])"
proof -
  let ?w1 = "\<lparr>trace = [GenerateContent GENAI_MODEL (generation_prompt 1) (GenText (Some repeat_text)),
               GenerateContent GENAI_MODEL (extraction_prompt (Some repeat_text))
                 (GenText (Some repeat_text)),
               HttpGet \<lparr>req_url = ''http://h/a.png'', req_user_agent = None,
                        req_timeout = Some 5\<rparr> (Response 200 ''PNG'')],
      stdout = [], files = Map.empty, dirs = {}\<rparr>"
  have run1: "generate_image_urls 3 env_repeat 1 w_empty = Some (Returned [''http://h/a.png''], ?w1)"
    by (simp add: generate_image_urls_def while_loop.simps generate_content_def
        is_accessible_def requests_get_def env_repeat_def w_empty_def
        repeat_text_def strip_def is_space_def Let_def)
  have run2: "generate_image_urls 3 env_repeat 2 w_empty
     = Some (Returned [''http://h/a.png'', ''http://h/a.png''], w_repeat)"
    by (simp add: generate_image_urls_def while_loop.simps generate_content_def
        is_accessible_def requests_get_def env_repeat_def w_empty_def w_repeat_def
        repeat_text_def strip_def is_space_def Let_def)
  have arg: "py_int ''2'' = Some 2"
    by (simp add: py_int_def strip_def is_space_def is_digit_def digit_chars_def
                  digits_value_def digit_value_def)
  have dirs: "IMAGES_DIR env_repeat = ''/app/src/../images''"
             "GSIMAGES_DIR env_repeat = ''/app/src/../gs-images''"
    by (simp_all add: IMAGES_DIR_def GSIMAGES_DIR_def path_join_def env_repeat_def)
  have names1:
    "imagefile ''../images'' [''http://h/a.png''] 0 = ''../images/1.png''"
    "grayfile ''../gs-images'' [''http://h/a.png''] 0 = ''../gs-images/1.png''"
    by (simp_all add: imagefile_def grayfile_def os_sep_def str_int_def str_nat.simps
                      digit_chars_def splitext_def rfind_def)
  have names2:
    "imagefile ''/app/src/../images'' [''http://h/a.png'', ''http://h/a.png''] 0
       = ''/app/src/../images/1.png''"
    "imagefile ''/app/src/../images'' [''http://h/a.png'', ''http://h/a.png''] (Suc 0)
       = ''/app/src/../images/2.png''"
    "grayfile ''/app/src/../gs-images'' [''http://h/a.png'', ''http://h/a.png''] 0
       = ''/app/src/../gs-images/1.png''"
    "grayfile ''/app/src/../gs-images'' [''http://h/a.png'', ''http://h/a.png''] (Suc 0)
       = ''/app/src/../gs-images/2.png''"
    by (simp_all add: imagefile_def grayfile_def os_sep_def str_int_def str_nat.simps
                      digit_chars_def splitext_def rfind_def)
  have loop1: "(\<lambda>(r, w). (r, hd (trace w), raw_written (trace w)))
        (main_loop env_repeat ''../images'' ''../gs-images'' [''http://h/a.png''] 0 ?w1)
     = (Returned (),
             GenerateContent GENAI_MODEL (generation_prompt 1) (GenText (Some repeat_text)),
             [''../images/1.png''])"
    by (simp add: main_loop.simps names1 download_image_def to_grayscale_def requests_get_def
                  makedirs_def write_file_def imread_def dirname_def rfind_def
                  env_repeat_def Let_def trace_simps)
  have loop2: "(\<lambda>(r, w). (r, hd (trace w), raw_written (trace w)))
        (main_loop env_repeat ''/app/src/../images'' ''/app/src/../gs-images''
           [''http://h/a.png'', ''http://h/a.png''] 0 w_repeat)
     = (Returned (),
             GenerateContent GENAI_MODEL (generation_prompt 2) (GenText (Some repeat_text)),
             [''/app/src/../images/1.png'', ''/app/src/../images/2.png''])"
    by (simp add: main_loop.simps names2 download_image_def to_grayscale_def requests_get_def
                  makedirs_def write_file_def imread_def dirname_def rfind_def
                  env_repeat_def w_repeat_def Let_def trace_simps)
  have top: "map_option (\<lambda>(r, w). (r, hd (trace w), raw_written (trace w)))
        (main_toplevel 3 env_repeat [''imageprocessing.py'', ''2''] w_empty)
     = Some (Returned (),
             GenerateContent GENAI_MODEL (generation_prompt 1) (GenText (Some repeat_text)),
             [''../images/1.png''])"
    using run1 loop1 by (simp add: main_toplevel_def)
  have src: "map_option (\<lambda>(r, w). (r, hd (trace w), raw_written (trace w)))
        (main 3 env_repeat [''imageprocessing.py'', ''2''] w_empty)
     = Some (Returned (),
             GenerateContent GENAI_MODEL (generation_prompt 2) (GenText (Some repeat_text)),
             [''/app/src/../images/1.png'', ''/app/src/../images/2.png''])"
    using run2 loop2 by (simp add: main_def arg dirs)
  from top src show ?thesis by blast
qed

subsection \<open>The inferred extension\<close>

lemma rfind_from_notin: "c \<notin> set xs \<Longrightarrow> rfind_from c i f xs = f"
  by (induction xs arbitrary: i f) auto

lemma rfind_from_append:
  "rfind_from c i f (xs @ ys) = rfind_from c (i + int (length xs)) (rfind_from c i f xs) ys"
  by (induction xs arbitrary: i f) (auto simp: algebra_simps)

lemma rfind_from_bound: "f < i \<Longrightarrow> rfind_from c i f xs < i + int (length xs)"
proof (induction xs arbitrary: i f)
  case Nil
  then show ?case by simp
next
  case (Cons x xs)
  have "rfind_from c (i + 1) (if x = c then i else f) xs < (i + 1) + int (length xs)"
    using Cons.prems by (intro Cons.IH) auto
  then show ?case by simp
qed

lemma rfind_from_lower: "- 1 \<le> f \<Longrightarrow> 0 \<le> i \<Longrightarrow> - 1 \<le> rfind_from c i f xs"
  by (induction xs arbitrary: i f) auto

lemma rfind_lower: "- 1 \<le> rfind xs c"
  by (simp add: rfind_def rfind_from_lower)

lemma rfind_bound: "rfind xs c < int (length xs)"
  using rfind_from_bound[of "- 1" 0 c xs] by (simp add: rfind_def)

lemma rfind_append_notin: "c \<notin> set ys \<Longrightarrow> rfind (xs @ ys) c = rfind xs c"
  by (simp add: rfind_def rfind_from_append rfind_from_notin)

lemma rfind_last: "c \<notin> set ys \<Longrightarrow> rfind (xs @ c # ys) c = int (length xs)"
  by (simp add: rfind_def rfind_from_append rfind_from_notin)

lemma rfind_notin: "c \<notin> set xs \<Longrightarrow> rfind xs c = - 1"
  by (simp add: rfind_def rfind_from_notin)

text \<open>A string is what precedes its last \<open>/\<close>, with it, followed by what comes after.\<close>

lemma after_last_slash_split:
  "p = rev (dropWhile (\<lambda>c. c \<noteq> CHR ''/'') (rev p)) @ after_last_slash p"
proof -
  have "p = rev (takeWhile (\<lambda>c. c \<noteq> CHR ''/'') (rev p)
                 @ dropWhile (\<lambda>c. c \<noteq> CHR ''/'') (rev p))"
    by simp
  also have "\<dots> = rev (dropWhile (\<lambda>c. c \<noteq> CHR ''/'') (rev p))
                  @ rev (takeWhile (\<lambda>c. c \<noteq> CHR ''/'') (rev p))"
    by (rule rev_append)
  finally show ?thesis unfolding after_last_slash_def .
qed

lemma after_last_slash_no_sep: "CHR ''/'' \<notin> set (after_last_slash p)"
  by (auto simp: after_last_slash_def dest: set_takeWhileD)

lemma rfind_sep:
  "rfind p CHR ''/'' + 1 = int (length (rev (dropWhile (\<lambda>c. c \<noteq> CHR ''/'') (rev p))))"
proof -
  let ?pre = "rev (dropWhile (\<lambda>c. c \<noteq> CHR ''/'') (rev p))"
  have p: "p = ?pre @ after_last_slash p" by (rule after_last_slash_split)
  show ?thesis
  proof (cases "dropWhile (\<lambda>c. c \<noteq> CHR ''/'') (rev p)")
    case Nil
    with p have "p = after_last_slash p" by simp
    then have "CHR ''/'' \<notin> set p" using after_last_slash_no_sep[of p] by simp
    with Nil show ?thesis by (simp add: rfind_notin)
  next
    case (Cons x xs)
    then have "x = CHR ''/''" using hd_dropWhile[of "\<lambda>c. c \<noteq> CHR ''/''" "rev p"] by auto
    with Cons have pre: "?pre = rev xs @ [CHR ''/'']" by simp
    have "rfind (rev xs @ CHR ''/'' # after_last_slash p) CHR ''/'' = int (length (rev xs))"
      by (rule rfind_last) (rule after_last_slash_no_sep)
    moreover have "p = rev xs @ CHR ''/'' # after_last_slash p" using p pre by simp
    ultimately have "rfind p CHR ''/'' = int (length xs)" by simp
    with pre show ?thesis by simp
  qed
qed

lemma drop_sep_after_last_slash: "drop (nat (rfind p CHR ''/'' + 1)) p = after_last_slash p"
proof -
  let ?pre = "rev (dropWhile (\<lambda>c. c \<noteq> CHR ''/'') (rev p))"
  have "drop (length ?pre) (?pre @ after_last_slash p) = after_last_slash p" by simp
  then have "drop (length ?pre) p = after_last_slash p"
    using after_last_slash_split[of p] by simp
  then show ?thesis by (simp add: rfind_sep)
qed

lemma splitext_no_dot:
  assumes "CHR ''.'' \<notin> set (after_last_slash p)"
  shows "splitext p = (p, [])"
proof -
  let ?pre = "rev (dropWhile (\<lambda>c. c \<noteq> CHR ''/'') (rev p))"
  have "rfind (?pre @ after_last_slash p) CHR ''.'' = rfind ?pre CHR ''.''"
    using assms by (rule rfind_append_notin)
  then have "rfind p CHR ''.'' = rfind ?pre CHR ''.''"
    using after_last_slash_split[of p] by simp
  moreover have "rfind ?pre CHR ''.'' < int (length ?pre)" by (rule rfind_bound)
  ultimately have "\<not> rfind p CHR ''.'' > rfind p CHR ''/''"
    using rfind_sep[of p] by linarith
  then show ?thesis by (simp add: splitext_def Let_def)
qed

lemma splitext_query:
  assumes dots: "CHR ''.'' \<notin> set ext" "CHR ''.'' \<notin> set query"
    and seps: "CHR ''/'' \<notin> set ext" "CHR ''/'' \<notin> set query"
    and stem: "dropWhile (\<lambda>c. c = CHR ''.'') (after_last_slash stem) \<noteq> []"
  shows "splitext (stem @ ''.'' @ ext @ ''?'' @ query) = (stem, ''.'' @ ext @ ''?'' @ query)"
proof -
  let ?rest = "ext @ ''?'' @ query"
  let ?p = "stem @ ''.'' @ ext @ ''?'' @ query"
  have p: "?p = stem @ CHR ''.'' # ?rest" by simp
  have dot: "rfind ?p CHR ''.'' = int (length stem)"
    unfolding p using dots by (intro rfind_last) auto
  have "rfind (stem @ (CHR ''.'' # ?rest)) CHR ''/'' = rfind stem CHR ''/''"
    using seps by (intro rfind_append_notin) auto
  then have sep: "rfind ?p CHR ''/'' = rfind stem CHR ''/''" by simp
  have lt: "rfind stem CHR ''/'' < int (length stem)" by (rule rfind_bound)
  have ge: "- 1 \<le> rfind stem CHR ''/''" by (rule rfind_lower)
  define k where "k = nat (rfind stem CHR ''/'' + 1)"
  have le: "k \<le> length stem" using lt by (simp add: k_def)
  have n: "nat (int (length stem) - (rfind stem CHR ''/'' + 1)) = length stem - k"
    using ge lt by (simp add: k_def)
  have "take (length stem - k) (drop k ?p) = drop k stem"
    using le by simp
  then have "take (nat (int (length stem) - (rfind stem CHR ''/'' + 1)))
          (drop (nat (rfind stem CHR ''/'' + 1)) ?p)
        = drop (nat (rfind stem CHR ''/'' + 1)) stem"
    unfolding n unfolding k_def .
  then have seg: "take (nat (rfind ?p CHR ''.'' - (rfind ?p CHR ''/'' + 1)))
          (drop (nat (rfind ?p CHR ''/'' + 1)) ?p) = after_last_slash stem"
    unfolding dot sep by (simp add: drop_sep_after_last_slash)
  have "splitext ?p = (take (nat (rfind ?p CHR ''.'')) ?p, drop (nat (rfind ?p CHR ''.'')) ?p)"
    unfolding splitext_def Let_def seg using stem dot sep lt by simp
  then show ?thesis unfolding dot by simp
qed

lemma url_path_no_query:
  "CHR ''?'' \<notin> set url \<Longrightarrow> CHR ''#'' \<notin> set url \<Longrightarrow> url_path url = url"
  by (simp add: url_path_def takeWhile_eq_all_conv) metis

text \<open>
  C10, as the code has it. The two files of image \<open>i\<close> are named by \<open>i+1\<close> followed by the
  extension that \<open>os.path.splitext\<close> gives for the whole URL string. When no dot follows
  the last \<open>/\<close> of the URL string, query and fragment included, that extension is empty
  and the files are named by the bare number; this is the case of a URL without query
  and fragment whose last path segment has no dot. When the URL ends in a dot, an
  extension, a question mark and a query, where neither the extension nor the query
  contains a dot or a slash and the name before the dot is not made of dots only, the
  extension inferred is the dot, the extension and the whole query.
\<close>

theorem inferred_extension:
  "imagefile images_dir image_urls i
     = images_dir @ ''/'' @ str_int (int i + 1) @ snd (splitext (image_urls ! i))
   \<and> grayfile gsimages_dir image_urls i
     = gsimages_dir @ ''/'' @ str_int (int i + 1) @ snd (splitext (image_urls ! i))
   \<and> (CHR ''.'' \<notin> set (after_last_slash (image_urls ! i))
      \<longrightarrow> snd (splitext (image_urls ! i)) = []
          \<and> imagefile images_dir image_urls i = images_dir @ ''/'' @ str_int (int i + 1)
          \<and> grayfile gsimages_dir image_urls i = gsimages_dir @ ''/'' @ str_int (int i + 1))
   \<and> (CHR ''?'' \<notin> set (image_urls ! i) \<and> CHR ''#'' \<notin> set (image_urls ! i)
        \<and> CHR ''.'' \<notin> set (last_path_segment (image_urls ! i))
      \<longrightarrow> snd (splitext (image_urls ! i)) = [])
   \<and> (image_urls ! i = stem @ ''.'' @ ext @ ''?'' @ query
        \<and> CHR ''.'' \<notin> set ext \<and> CHR ''.'' \<notin> set query
        \<and> CHR ''/'' \<notin> set ext \<and> CHR ''/'' \<notin> set query
        \<and> dropWhile (\<lambda>c. c = CHR ''.'') (after_last_slash stem) \<noteq> []
      \<longrightarrow> snd (splitext (image_urls ! i)) = ''.'' @ ext @ ''?'' @ query)"
proof (intro conjI impI)
  show "imagefile images_dir image_urls i
     = images_dir @ ''/'' @ str_int (int i + 1) @ snd (splitext (image_urls ! i))"
    by (simp add: imagefile_def os_sep_def)
  show "grayfile gsimages_dir image_urls i
     = gsimages_dir @ ''/'' @ str_int (int i + 1) @ snd (splitext (image_urls ! i))"
    by (simp add: grayfile_def os_sep_def)
next
  assume nd: "CHR ''.'' \<notin> set (after_last_slash (image_urls ! i))"
  from splitext_no_dot[OF nd] show e: "snd (splitext (image_urls ! i)) = []" by simp
  show "imagefile images_dir image_urls i = images_dir @ ''/'' @ str_int (int i + 1)"
    by (simp add: imagefile_def os_sep_def e)
  show "grayfile gsimages_dir image_urls i = gsimages_dir @ ''/'' @ str_int (int i + 1)"
    by (simp add: grayfile_def os_sep_def e)
next
  assume p: "CHR ''?'' \<notin> set (image_urls ! i) \<and> CHR ''#'' \<notin> set (image_urls ! i)
        \<and> CHR ''.'' \<notin> set (last_path_segment (image_urls ! i))"
  then have "url_path (image_urls ! i) = image_urls ! i"
    by (intro url_path_no_query) simp_all
  with p have "CHR ''.'' \<notin> set (after_last_slash (image_urls ! i))"
    by (simp add: last_path_segment_def)
  from splitext_no_dot[OF this] show "snd (splitext (image_urls ! i)) = []" by simp
next
  assume q: "image_urls ! i = stem @ ''.'' @ ext @ ''?'' @ query
        \<and> CHR ''.'' \<notin> set ext \<and> CHR ''.'' \<notin> set query
        \<and> CHR ''/'' \<notin> set ext \<and> CHR ''/'' \<notin> set query
        \<and> dropWhile (\<lambda>c. c = CHR ''.'') (after_last_slash stem) \<noteq> []"
  then have "splitext (stem @ ''.'' @ ext @ ''?'' @ query) = (stem, ''.'' @ ext @ ''?'' @ query)"
    by (intro splitext_query) simp_all
  with q show "snd (splitext (image_urls ! i)) = ''.'' @ ext @ ''?'' @ query"
    by simp
qed

theorem inferred_extension_witness:
  "CHR ''.'' \<notin> set (after_last_slash ([''http://h.org/photo'', ''http://h.org/a.jpg?w=640''] ! 0))
   \<and> imagefile ''/d'' [''http://h.org/photo'', ''http://h.org/a.jpg?w=640''] 0 = ''/d/1''
   \<and> grayfile ''/g'' [''http://h.org/photo'', ''http://h.org/a.jpg?w=640''] 0 = ''/g/1''
   \<and> CHR ''?'' \<notin> set ([''http://h.org/photo'', ''http://h.org/a.jpg?w=640''] ! 0)
   \<and> CHR ''#'' \<notin> set ([''http://h.org/photo'', ''http://h.org/a.jpg?w=640''] ! 0)
   \<and> CHR ''.'' \<notin> set (last_path_segment
                          ([''http://h.org/photo'', ''http://h.org/a.jpg?w=640''] ! 0))
   \<and> snd (splitext ([''http://h.org/photo'', ''http://h.org/a.jpg?w=640''] ! 0)) = []
   \<and> [''http://h.org/photo'', ''http://h.org/a.jpg?w=640''] ! 1
        = ''http://h.org/a'' @ ''.'' @ ''jpg'' @ ''?'' @ ''w=640''
   \<and> CHR ''.'' \<notin> set ''jpg'' \<and> CHR ''.'' \<notin> set ''w=640''
   \<and> CHR ''/'' \<notin> set ''jpg'' \<and> CHR ''/'' \<notin> set ''w=640''
   \<and> dropWhile (\<lambda>c. c = CHR ''.'') (after_last_slash ''http://h.org/a'') \<noteq> []
   \<and> snd (splitext ([''http://h.org/photo'', ''http://h.org/a.jpg?w=640''] ! 1)) = ''.jpg?w=640''
   \<and> grayfile ''/g'' [''http://h.org/photo'', ''http://h.org/a.jpg?w=640''] 1
        = ''/g/2.jpg?w=640''"
proof -
  let ?urls = "[''http://h.org/photo'', ''http://h.org/a.jpg?w=640'']"
  have h1: "CHR ''.'' \<notin> set (after_last_slash (?urls ! 0))"
    by (simp add: after_last_slash_def)
  have h3: "CHR ''?'' \<notin> set (?urls ! 0) \<and> CHR ''#'' \<notin> set (?urls ! 0)
        \<and> CHR ''.'' \<notin> set (last_path_segment (?urls ! 0))"
    by (simp add: last_path_segment_def url_path_def after_last_slash_def)
  have h2: "?urls ! 1 = ''http://h.org/a'' @ ''.'' @ ''jpg'' @ ''?'' @ ''w=640''
        \<and> CHR ''.'' \<notin> set ''jpg'' \<and> CHR ''.'' \<notin> set ''w=640''
        \<and> CHR ''/'' \<notin> set ''jpg'' \<and> CHR ''/'' \<notin> set ''w=640''
        \<and> dropWhile (\<lambda>c. c = CHR ''.'') (after_last_slash ''http://h.org/a'') \<noteq> []"
    by (simp add: after_last_slash_def)
  have one: "str_int 1 = ''1''" "str_int 2 = ''2''"
    by (simp_all add: str_int_def str_nat.simps digit_chars_def)
  note t0 = inferred_extension[of "''/d''" ?urls 0 "''/g''" "[]" "[]" "[]"]
  from t0 h1
  have a: "imagefile ''/d'' ?urls 0 = ''/d/1''" "grayfile ''/g'' ?urls 0 = ''/g/1''"
    by (simp_all add: one)
  from t0 h3 have c: "snd (splitext (?urls ! 0)) = []" by blast
  from inferred_extension[of "''/d''" ?urls 1 "''/g''" "''http://h.org/a''" "''jpg''" "''w=640''"] h2
  have b: "snd (splitext (?urls ! 1)) = ''.jpg?w=640''"
          "grayfile ''/g'' ?urls 1 = ''/g/2.jpg?w=640''"
    by (simp_all add: one)
  from h1 h2 h3 a b c show ?thesis by blast
qed

text \<open>
  C10 as it is stated fails in both of its cases. The last path segment of
  \<open>http://h.org/photo?v=1.2\<close> is \<open>photo\<close> and has no dot, yet the extension inferred is
  \<open>.2\<close>, taken from the query, and the files are named \<open>1.2\<close>. In
  \<open>http://h.org/a.jpg?next=/b\<close> a query follows the extension, yet the extension
  inferred is empty, so the query is no part of it, and the files are named by the bare
  number.
\<close>

theorem inferred_extension_query_counterexample:
  "last_path_segment ''http://h.org/photo?v=1.2'' = ''photo''
   \<and> CHR ''.'' \<notin> set (last_path_segment ''http://h.org/photo?v=1.2'')
   \<and> snd (splitext ''http://h.org/photo?v=1.2'') = ''.2''
   \<and> imagefile ''/d'' [''http://h.org/photo?v=1.2''] 0 = ''/d/1.2''
   \<and> grayfile ''/g'' [''http://h.org/photo?v=1.2''] 0 = ''/g/1.2''
   \<and> snd (splitext ''http://h.org/a.jpg?next=/b'') = []
   \<and> imagefile ''/d'' [''http://h.org/a.jpg?next=/b''] 0 = ''/d/1''
   \<and> grayfile ''/g'' [''http://h.org/a.jpg?next=/b''] 0 = ''/g/1''"
  by (simp add: imagefile_def grayfile_def os_sep_def str_int_def str_nat.simps digit_chars_def
                splitext_def rfind_def last_path_segment_def url_path_def after_last_slash_def)

subsection \<open>The grayscale outputs\<close>

lemma download_image_effect:
  assumes "download_image env url f w = (r, w1)"
  shows "\<exists>es. trace w1 = trace w @ es \<and> gray_written es = []
           \<and> (\<forall>p. files w p \<noteq> None \<longrightarrow> files w1 p \<noteq> None)
           \<and> (r = Returned () \<longrightarrow> raw_written es = [f] \<and> files w1 f \<noteq> None)"
proof -
  let ?q = "\<lparr>req_url = url, req_user_agent = Some useragent, req_timeout = None\<rparr>"
  let ?a = "http env (length (trace w)) ?q"
  show ?thesis
  proof (cases "r = Returned ()")
    case True
    with assms have "trace w1 = trace w @ [HttpGet ?q ?a, WriteFile f (the (files w1 f))]
        \<and> files w1 f \<noteq> None \<and> (\<forall>p. files w p \<noteq> None \<longrightarrow> files w1 p \<noteq> None)"
      by (auto simp: download_image_def requests_get_def makedirs_def write_file_def print_def
                     Let_def
               split: get_outcome.splits if_splits)
    with True show ?thesis
      by (intro exI[of _ "[HttpGet ?q ?a, WriteFile f (the (files w1 f))]"])
         (simp add: trace_simps)
  next
    case False
    with assms have "trace w1 = trace w @ [HttpGet ?q ?a] \<and> files w1 = files w"
      by (auto simp: download_image_def requests_get_def makedirs_def write_file_def print_def
                     Let_def
               split: get_outcome.splits if_splits)
    with False show ?thesis
      by (intro exI[of _ "[HttpGet ?q ?a]"]) (simp add: trace_simps)
  qed
qed

lemma to_grayscale_effect:
  assumes "to_grayscale env inp out w = (r, w1)"
  shows "\<exists>es. trace w1 = trace w @ es \<and> raw_written es = []
           \<and> (\<forall>p. files w p \<noteq> None \<longrightarrow> files w1 p \<noteq> None)
           \<and> (gray_written es = [] \<or> gray_written es = [out] \<and> files w1 out \<noteq> None)"
proof (cases "\<exists>b. trace w1 = trace w @ [ImWrite out b]")
  case True
  then obtain b where b: "trace w1 = trace w @ [ImWrite out b]" by blast
  with assms have "files w1 out \<noteq> None \<and> (\<forall>p. files w p \<noteq> None \<longrightarrow> files w1 p \<noteq> None)"
    by (auto simp: to_grayscale_def makedirs_def print_def Let_def
             split: option.splits imwrite_outcome.splits if_splits)
  with b show ?thesis
    by (intro exI[of _ "[ImWrite out b]"]) (simp add: trace_simps)
next
  case False
  with assms have "trace w1 = trace w \<and> files w1 = files w"
    by (auto simp: to_grayscale_def makedirs_def print_def Let_def
             split: option.splits imwrite_outcome.splits if_splits)
  then show ?thesis
    by (intro exI[of _ "[]"]) (simp add: trace_simps)
qed

lemma outputs_inv_mono:
  "outputs_inv d g urls k m w \<Longrightarrow> m \<le> m' \<Longrightarrow> outputs_inv d g urls k m' w"
  unfolding outputs_inv_def by (meson le_trans less_le_trans)

lemma outputs_inv_download:
  assumes inv: "outputs_inv d g urls k m w"
    and dl: "download_image env url f w = (r, w1)"
  shows "outputs_inv d g urls k m w1
         \<and> (r = Returned () \<longrightarrow> f \<in> set (raw_written (drop k (trace w1))) \<and> files w1 f \<noteq> None)"
proof -
  from download_image_effect[OF dl] obtain es where
    es: "trace w1 = trace w @ es" "gray_written es = []"
        "\<forall>p. files w p \<noteq> None \<longrightarrow> files w1 p \<noteq> None"
        "r = Returned () \<longrightarrow> raw_written es = [f] \<and> files w1 f \<noteq> None" by blast
  from inv have k: "k \<le> length (trace w)" by (simp add: outputs_inv_def)
  then have d: "drop k (trace w1) = drop k (trace w) @ es" using es(1) by simp
  have gw: "gray_written (drop k (trace w1)) = gray_written (drop k (trace w))"
    unfolding d using es(2) by (simp add: trace_simps)
  have "\<exists>j<m. p = grayfile g urls j
                \<and> imagefile d urls j \<in> set (raw_written (drop k (trace w1)))
                \<and> files w1 p \<noteq> None
                \<and> files w1 (imagefile d urls j) \<noteq> None"
    if "p \<in> set (gray_written (drop k (trace w)))" for p
  proof -
    from inv that obtain j where "j < m" "p = grayfile g urls j"
      "imagefile d urls j \<in> set (raw_written (drop k (trace w)))"
      "files w p \<noteq> None" "files w (imagefile d urls j) \<noteq> None"
      unfolding outputs_inv_def by blast
    with es(3) show ?thesis
      unfolding d by (intro exI[of _ j]) (simp add: trace_simps)
  qed
  moreover from inv have "length (gray_written (drop k (trace w))) \<le> m"
    by (simp add: outputs_inv_def)
  moreover have "k \<le> length (trace w1)" using k es(1) by simp
  ultimately have "outputs_inv d g urls k m w1"
    unfolding outputs_inv_def gw by blast
  moreover have "r = Returned () \<longrightarrow> f \<in> set (raw_written (drop k (trace w1))) \<and> files w1 f \<noteq> None"
    using es(4) unfolding d by (simp add: trace_simps)
  ultimately show ?thesis by blast
qed

lemma outputs_inv_to_grayscale:
  assumes inv: "outputs_inv d g urls k i w"
    and raw: "imagefile d urls i \<in> set (raw_written (drop k (trace w)))"
             "files w (imagefile d urls i) \<noteq> None"
    and gs: "to_grayscale env (imagefile d urls i) (grayfile g urls i) w = (r, w1)"
  shows "outputs_inv d g urls k (Suc i) w1"
proof -
  from to_grayscale_effect[OF gs] obtain es where
    es: "trace w1 = trace w @ es" "raw_written es = []"
        "\<forall>p. files w p \<noteq> None \<longrightarrow> files w1 p \<noteq> None"
        "gray_written es = [] \<or> gray_written es = [grayfile g urls i] \<and> files w1 (grayfile g urls i) \<noteq> None"
    by blast
  from inv have k: "k \<le> length (trace w)" by (simp add: outputs_inv_def)
  then have d: "drop k (trace w1) = drop k (trace w) @ es" using es(1) by simp
  have old: "\<exists>j<Suc i. p = grayfile g urls j
                \<and> imagefile d urls j \<in> set (raw_written (drop k (trace w1)))
                \<and> files w1 p \<noteq> None
                \<and> files w1 (imagefile d urls j) \<noteq> None"
    if "p \<in> set (gray_written (drop k (trace w)))" for p
  proof -
    from inv that obtain j where "j < i" "p = grayfile g urls j"
      "imagefile d urls j \<in> set (raw_written (drop k (trace w)))"
      "files w p \<noteq> None" "files w (imagefile d urls j) \<noteq> None"
      unfolding outputs_inv_def by blast
    with es(3) show ?thesis
      unfolding d by (intro exI[of _ j]) (simp add: trace_simps)
  qed
  have new: "\<exists>j<Suc i. grayfile g urls i = grayfile g urls j
                \<and> imagefile d urls j \<in> set (raw_written (drop k (trace w1)))
                \<and> files w1 (grayfile g urls i) \<noteq> None
                \<and> files w1 (imagefile d urls j) \<noteq> None"
    if "files w1 (grayfile g urls i) \<noteq> None"
    using that raw es(3) unfolding d by (intro exI[of _ i]) (simp add: trace_simps)
  from inv have len: "length (gray_written (drop k (trace w))) \<le> i"
    by (simp add: outputs_inv_def)
  from es(4) show ?thesis
  proof
    assume "gray_written es = []"
    then show ?thesis
      unfolding outputs_inv_def d using k len old es(1) by (auto simp: trace_simps)
  next
    assume "gray_written es = [grayfile g urls i] \<and> files w1 (grayfile g urls i) \<noteq> None"
    then show ?thesis
      unfolding outputs_inv_def d using k len old new es(1) by (auto simp: trace_simps)
  qed
qed

text \<open>Every point of the loop satisfies the invariant for the whole list.\<close>

lemma main_states_inv:
  assumes "outputs_inv d g urls k i w" and "w' \<in> set (main_states env d g urls i w)"
  shows "outputs_inv d g urls k (length urls) w'"
  using assms
proof (induction env d g urls i w rule: main_states.induct)
  case (1 env d g urls i w)
  show ?case
  proof (cases "i < length urls")
    case False
    with "1.prems"(2) show ?thesis by (simp add: main_states.simps)
  next
    case True
    obtain r1 w1 where dl: "download_image env (urls ! i) (imagefile d urls i) w = (r1, w1)"
      by (cases "download_image env (urls ! i) (imagefile d urls i) w")
    from outputs_inv_download[OF "1.prems"(1) dl] have
      inv1: "outputs_inv d g urls k i w1"
      and raw: "r1 = Returned () \<longrightarrow> imagefile d urls i \<in> set (raw_written (drop k (trace w1)))
                  \<and> files w1 (imagefile d urls i) \<noteq> None" by blast+
    have fin1: "outputs_inv d g urls k (length urls) w1"
      using inv1 True by (intro outputs_inv_mono[OF inv1]) simp
    show ?thesis
    proof (cases r1)
      case (Returned u)
      obtain r2 w2 where
        gs: "to_grayscale env (imagefile d urls i) (grayfile g urls i) w1 = (r2, w2)"
        by (cases "to_grayscale env (imagefile d urls i) (grayfile g urls i) w1")
      from raw Returned have raw': "imagefile d urls i \<in> set (raw_written (drop k (trace w1)))"
        "files w1 (imagefile d urls i) \<noteq> None" by simp_all
      from outputs_inv_to_grayscale[OF inv1 raw' gs]
      have inv2: "outputs_inv d g urls k (Suc i) w2" .
      have fin2: "outputs_inv d g urls k (length urls) w2"
        using True by (intro outputs_inv_mono[OF inv2]) simp
      show ?thesis
      proof (cases r2)
        case (Returned u')
        with "1.prems"(2) True dl gs \<open>r1 = Returned u\<close>
        have "w' = w1 \<or> w' = w2 \<or> w' \<in> set (main_states env d g urls (i + 1) w2)"
          by (subst (asm) main_states.simps) auto
        moreover have "outputs_inv d g urls k (length urls) w'"
          if "w' \<in> set (main_states env d g urls (i + 1) w2)"
          using "1.IH"[OF True dl[symmetric] _ gs[symmetric] _ _ that] Returned \<open>r1 = Returned u\<close> inv2
          by simp
        ultimately show ?thesis using fin1 fin2 by blast
      next
        case (Exited c)
        with "1.prems"(2) True dl gs \<open>r1 = Returned u\<close>
        have "w' = w1 \<or> w' = w2"
          by (subst (asm) main_states.simps) auto
        then show ?thesis using fin1 fin2 by blast
      next
        case (Raised e)
        with "1.prems"(2) True dl gs \<open>r1 = Returned u\<close>
        have "w' = w1 \<or> w' = w2"
          by (subst (asm) main_states.simps) auto
        then show ?thesis using fin1 fin2 by blast
      qed
    next
      case (Exited c)
      with "1.prems"(2) True dl have "w' = w1"
        by (subst (asm) main_states.simps) auto
      then show ?thesis using fin1 by simp
    next
      case (Raised e)
      with "1.prems"(2) True dl have "w' = w1"
        by (subst (asm) main_states.simps) auto
      then show ?thesis using fin1 by simp
    qed
  qed
qed

text \<open>The points of the loop end in the world that the loop of the driver ends in.\<close>

lemma main_loop_last_state:
  "snd (main_loop env d g urls i w) = last (w # main_states env d g urls i w)"
proof (induction env d g urls i w rule: main_loop.induct)
  case (1 env d g urls i w)
  show ?case
  proof (cases "i < length urls")
    case False
    then show ?thesis by (simp add: main_loop.simps main_states.simps)
  next
    case True
    obtain r1 w1 where dl: "download_image env (urls ! i) (imagefile d urls i) w = (r1, w1)"
      by (cases "download_image env (urls ! i) (imagefile d urls i) w")
    obtain r2 w2 where
      gs: "to_grayscale env (imagefile d urls i) (grayfile g urls i) w1 = (r2, w2)"
      by (cases "to_grayscale env (imagefile d urls i) (grayfile g urls i) w1")
    show ?thesis
    proof (cases r1)
      case (Returned u)
      note R1 = this
      show ?thesis
      proof (cases r2)
        case (Returned u')
        from "1.IH"[OF True dl[symmetric] _ gs[symmetric]] R1 Returned
        have "snd (main_loop env d g urls (i + 1) w2)
              = last (w2 # main_states env d g urls (i + 1) w2)" by simp
        with True dl gs R1 Returned show ?thesis
          by (subst main_loop.simps, subst main_states.simps) simp
      next
        case (Exited c)
        with True dl gs R1 show ?thesis
          by (subst main_loop.simps, subst main_states.simps) simp
      next
        case (Raised e)
        with True dl gs R1 show ?thesis
          by (subst main_loop.simps, subst main_states.simps) simp
      qed
    next
      case (Exited c)
      with True dl show ?thesis
        by (subst main_loop.simps, subst main_states.simps) simp
    next
      case (Raised e)
      with True dl show ?thesis
        by (subst main_loop.simps, subst main_states.simps) simp
    qed
  qed
qed

text \<open>The world in which \<open>main\<close> ends is the last of the points of the run.\<close>

lemma main_points_last:
  "map_option snd (main fuel env argv w)
     = map_option (\<lambda>(image_urls, ws). last ws) (main_points fuel env argv w)"
  by (auto simp: main_def main_points_def main_loop_last_state
           split: option.splits outcome.splits prod.splits)

text \<open>
  C7, as the code has it. Take a run of the script for the count \<open>N\<close> whose acquisition
  has ended, and any point of it: the start, the end of acquisition, or the world after
  any call of \<open>download_image\<close> or \<open>to_grayscale\<close> in the loop of the driver. Among the
  files written since the start, the grayscale files number at most \<open>max(N, 0)\<close>, and
  each is \<open>grayfile\<close> of some index \<open>j\<close> whose raw file \<open>imagefile\<close> of the same index, and
  so with the same number \<open>j+1\<close> and the same extension of \<open>image_urls[j]\<close>, has been
  written as well; both exist at that point.
\<close>

theorem grayscale_outputs_invariant:
  assumes "1 < length argv" and "py_int (argv ! 1) = Some n"
    and "main_points fuel env argv w = Some (image_urls, ws)"
    and "w' \<in> set ws"
  shows "outputs_inv (IMAGES_DIR env) (GSIMAGES_DIR env) image_urls
           (length (trace w)) (nat (max n 0)) w'"
proof -
  from assms(1-3) obtain r w1 where
    run: "generate_image_urls fuel env n w = Some (r, w1)"
    by (auto simp: main_points_def split: option.splits)
  then have loop: "while_loop fuel env n [] w = Some (r, w1)"
    by (simp add: generate_image_urls_def)
  from while_loop_inv[OF loop] obtain tr where
    tr: "trace w1 = trace w @ tr" "raw_written tr = []" "gray_written tr = []"
        "\<forall>urls. r = Returned urls \<longrightarrow> (int (length ([]::string list)) \<le> n \<longrightarrow> int (length urls) = n)"
    by blast
  have inv0: "outputs_inv (IMAGES_DIR env) (GSIMAGES_DIR env) image_urls (length (trace w)) 0 w"
    by (simp add: outputs_inv_def trace_simps)
  have inv1: "outputs_inv (IMAGES_DIR env) (GSIMAGES_DIR env) image_urls (length (trace w)) 0 w1"
    using tr(1,3) by (simp add: outputs_inv_def trace_simps)
  show ?thesis
  proof (cases r)
    case (Returned urls)
    with assms(1-3) run have ws: "image_urls = urls"
      "ws = w # w1 # main_states env (IMAGES_DIR env) (GSIMAGES_DIR env) image_urls 0 w1"
      by (auto simp: main_points_def)
    have len: "length image_urls = nat (max n 0)"
    proof (cases "0 \<le> n")
      case True
      with tr(4) Returned ws(1) show ?thesis by simp
    next
      case False
      then have "while_loop fuel env n [] w = Some (Returned [], w)"
        by (intro while_loop_done) simp
      with loop Returned ws(1) False show ?thesis by simp
    qed
    from assms(4) ws(2) consider "w' = w" | "w' = w1"
      | "w' \<in> set (main_states env (IMAGES_DIR env) (GSIMAGES_DIR env) image_urls 0 w1)"
      by auto
    then show ?thesis
    proof cases
      case 1
      with outputs_inv_mono[OF inv0] show ?thesis by simp
    next
      case 2
      with outputs_inv_mono[OF inv1] show ?thesis by simp
    next
      case 3
      from main_states_inv[OF inv1 3] len show ?thesis by simp
    qed
  next
    case (Exited c)
    with assms(1-3) run have "ws = [w, w1]" by (auto simp: main_points_def)
    with assms(4) have "w' = w \<or> w' = w1" by auto
    with outputs_inv_mono[OF inv0] outputs_inv_mono[OF inv1] show ?thesis by auto
  next
    case (Raised e)
    with assms(1-3) run have "ws = [w, w1]" by (auto simp: main_points_def)
    with assms(4) have "w' = w \<or> w' = w1" by auto
    with outputs_inv_mono[OF inv0] outputs_inv_mono[OF inv1] show ?thesis by auto
  qed
qed

theorem grayscale_outputs_invariant_witness:
  "1 < length [''imageprocessing.py'', ''2'']
   \<and> py_int ([''imageprocessing.py'', ''2''] ! 1) = Some 2
   \<and> main_points 3 env_repeat [''imageprocessing.py'', ''2''] w_empty
       = Some ([''http://h/a.png'', ''http://h/a.png''],
               w_empty # w_repeat #
                 main_states env_repeat (IMAGES_DIR env_repeat) (GSIMAGES_DIR env_repeat)
                   [''http://h/a.png'', ''http://h/a.png''] 0 w_repeat)
   \<and> w_done \<in> set (w_empty # w_repeat #
        main_states env_repeat (IMAGES_DIR env_repeat) (GSIMAGES_DIR env_repeat)
          [''http://h/a.png'', ''http://h/a.png''] 0 w_repeat)
   \<and> map_option snd (main 3 env_repeat [''imageprocessing.py'', ''2''] w_empty) = Some w_done
   \<and> gray_written (drop (length (trace w_empty)) (trace w_done))
       = [''/app/src/../gs-images/1.png'', ''/app/src/../gs-images/2.png'']
   \<and> outputs_inv (IMAGES_DIR env_repeat) (GSIMAGES_DIR env_repeat)
        [''http://h/a.png'', ''http://h/a.png''] (length (trace w_empty)) (nat (max 2 0)) w_done"
proof -
  let ?urls = "[''http://h/a.png'', ''http://h/a.png'']"
  have argc: "1 < length [''imageprocessing.py'', ''2'']" by simp
  have arg: "py_int ([''imageprocessing.py'', ''2''] ! 1) = Some 2"
    by (simp add: py_int_def strip_def is_space_def is_digit_def digit_chars_def
                  digits_value_def digit_value_def)
  have run: "generate_image_urls 3 env_repeat 2 w_empty = Some (Returned ?urls, w_repeat)"
    by (simp add: generate_image_urls_def while_loop.simps generate_content_def
        is_accessible_def requests_get_def env_repeat_def w_empty_def w_repeat_def
        repeat_text_def strip_def is_space_def Let_def)
  have pts: "main_points 3 env_repeat [''imageprocessing.py'', ''2''] w_empty
       = Some (?urls, w_empty # w_repeat #
                 main_states env_repeat (IMAGES_DIR env_repeat) (GSIMAGES_DIR env_repeat)
                   ?urls 0 w_repeat)"
    using arg run by (simp add: main_points_def)
  have dirs: "IMAGES_DIR env_repeat = ''/app/src/../images''"
             "GSIMAGES_DIR env_repeat = ''/app/src/../gs-images''"
    by (simp_all add: IMAGES_DIR_def GSIMAGES_DIR_def path_join_def env_repeat_def)
  have names:
    "imagefile ''/app/src/../images'' ?urls 0 = ''/app/src/../images/1.png''"
    "imagefile ''/app/src/../images'' ?urls (Suc 0) = ''/app/src/../images/2.png''"
    "grayfile ''/app/src/../gs-images'' ?urls 0 = ''/app/src/../gs-images/1.png''"
    "grayfile ''/app/src/../gs-images'' ?urls (Suc 0) = ''/app/src/../gs-images/2.png''"
    by (simp_all add: imagefile_def grayfile_def os_sep_def str_int_def str_nat.simps
                      digit_chars_def splitext_def rfind_def)
  have last: "last (w_repeat # main_states env_repeat ''/app/src/../images''
                 ''/app/src/../gs-images'' ?urls 0 w_repeat) = w_done"
    by (simp add: main_states.simps names download_image_def to_grayscale_def requests_get_def
                  makedirs_def write_file_def imread_def dirname_def rfind_def
                  env_repeat_def w_repeat_def w_done_def Let_def insert_commute)
  have ne: "main_states env_repeat ''/app/src/../images'' ''/app/src/../gs-images''
              ?urls 0 w_repeat \<noteq> []"
    by (simp add: main_states.simps names download_image_def requests_get_def
                  makedirs_def write_file_def dirname_def rfind_def
                  env_repeat_def w_repeat_def Let_def)
  from last ne have mem: "w_done \<in> set (w_empty # w_repeat #
        main_states env_repeat (IMAGES_DIR env_repeat) (GSIMAGES_DIR env_repeat)
          ?urls 0 w_repeat)"
    unfolding dirs using last_in_set[OF ne] by simp
  have fin: "map_option snd (main 3 env_repeat [''imageprocessing.py'', ''2''] w_empty)
             = Some w_done"
    unfolding main_points_last pts using last ne by (simp add: dirs)
  have gw: "gray_written (drop (length (trace w_empty)) (trace w_done))
       = [''/app/src/../gs-images/1.png'', ''/app/src/../gs-images/2.png'']"
    by (simp add: w_empty_def w_done_def w_repeat_def trace_simps)
  from grayscale_outputs_invariant[OF argc arg pts mem] argc arg pts mem fin gw
  show ?thesis by blast
qed

text \<open>
  C7 as it is stated fails for a negative count: the script started with \<open>-1\<close> produces
  nothing, and the number of grayscale files, zero, is not at most \<open>-1\<close>.
\<close>

theorem grayscale_count_negative_counterexample:
  "main 0 env_repeat [''imageprocessing.py'', ''-1''] w_empty = Some (Returned (), w_empty)
   \<and> \<not> int (length (gray_written (drop (length (trace w_empty)) (trace w_empty)))) \<le> - 1"
proof -
  have arg: "py_int ''-1'' = Some (- 1)"
    by (simp add: py_int_def strip_def is_space_def is_digit_def digit_chars_def
                  digits_value_def digit_value_def)
  have run: "generate_image_urls 0 env_repeat (- 1) w_empty = Some (Returned [], w_empty)"
    by (simp add: generate_image_urls_def while_loop.simps)
  have loop: "main_loop env_repeat (IMAGES_DIR env_repeat) (GSIMAGES_DIR env_repeat) [] 0 w_empty
              = (Returned (), w_empty)"
    by (simp add: main_loop.simps)
  show ?thesis
    using run loop by (simp add: main_def arg w_empty_def trace_simps)
qed

end
